theory Spec2Isabelle
  imports Main
begin

section \<open>JavaScript values and plain objects\<close>

text \<open>
  The values that flow through \<^verbatim>\<open>packages/block-editor/src/hooks/style.js\<close>.
  A plain object is the list of its own enumerable properties in the order in which
  JavaScript enumerates them; style configurations are trees, so a nested object is a
  nested list. Numbers are only carried around by this module, never computed with, and
  are modelled by the integers. Arrays and functions do not occur in a style
  configuration and are not part of the value type.
\<close>

datatype jsval =
    JUndefined
  | JNull
  | JBool bool
  | JNum int
  | JStr string
  | JObj "(string \<times> jsval) list"

type_synonym obj = "(string \<times> jsval) list"

text \<open>Truthiness, as an \<^verbatim>\<open>if\<close> or a \<^verbatim>\<open>!\<close> of the source reads a value.\<close>

fun truthy :: "jsval \<Rightarrow> bool" where
  "truthy JUndefined = False"
| "truthy JNull = False"
| "truthy (JBool b) = b"
| "truthy (JNum n) = (n \<noteq> 0)"
| "truthy (JStr s) = (s \<noteq> [])"
| "truthy (JObj kvs) = True"

text \<open>lodash \<^verbatim>\<open>isObject\<close>: of the values above only an object is one.\<close>

fun isObject :: "jsval \<Rightarrow> bool" where
  "isObject (JObj kvs) = True"
| "isObject v = False"

subsection \<open>Property keys and their order\<close>

definition isDigit :: "char \<Rightarrow> bool" where
  "isDigit c = (c \<in> set ''0123456789'')"

definition digitVal :: "char \<Rightarrow> int" where
  "digitVal c =
     (case map_of (zip ''0123456789'' [0, 1, 2, 3, 4, 5, 6, 7, 8, 9]) c of
        Some n \<Rightarrow> n
      | None \<Rightarrow> 0)"

definition toNumber :: "string \<Rightarrow> int" where
  "toNumber s = foldl (\<lambda>n c. 10 * n + digitVal c) 0 s"

text \<open>
  An array index is the canonical decimal form of an integer below \<open>2^32 - 1\<close>. An
  object enumerates its array-index keys first, in ascending numeric order, and its other
  string keys after them in the order of their creation.
\<close>

definition isArrayIndex :: "string \<Rightarrow> bool" where
  "isArrayIndex s =
     (s \<noteq> [] \<and> list_all isDigit s \<and> (length s = 1 \<or> hd s \<noteq> CHR ''0'') \<and> toNumber s < 4294967295)"

fun showNat :: "nat \<Rightarrow> string" where
  "showNat n =
     (if n < 10 then [''0123456789'' ! n] else showNat (n div 10) @ [''0123456789'' ! (n mod 10)])"

declare showNat.simps [simp del]

definition hasOwn :: "obj \<Rightarrow> string \<Rightarrow> bool" where
  "hasOwn ob k = (map_of ob k \<noteq> None)"

text \<open>Reading \<^verbatim>\<open>ob[k]\<close> on a plain object: \<^verbatim>\<open>undefined\<close> when the key is absent.\<close>

definition getProp :: "obj \<Rightarrow> string \<Rightarrow> jsval" where
  "getProp ob k = (case map_of ob k of Some v \<Rightarrow> v | None \<Rightarrow> JUndefined)"

fun replaceProp :: "obj \<Rightarrow> string \<Rightarrow> jsval \<Rightarrow> obj" where
  "replaceProp [] k v = []"
| "replaceProp ((k', v') # rest) k v =
     (if k' = k then (k, v) # rest else (k', v') # replaceProp rest k v)"

fun insertIndex :: "obj \<Rightarrow> string \<Rightarrow> jsval \<Rightarrow> obj" where
  "insertIndex [] k v = [(k, v)]"
| "insertIndex ((k', v') # rest) k v =
     (if isArrayIndex k' \<and> toNumber k' < toNumber k then (k', v') # insertIndex rest k v
      else (k, v) # (k', v') # rest)"

text \<open>
  The assignment \<^verbatim>\<open>ob[k] = v\<close> on a plain object: an existing property keeps its place
  and takes the new value, a new property is created. The key \<^verbatim>\<open>__proto__\<close>, whose
  assignment sets the prototype instead, is outside the model; no kebab-case form and no
  key this module writes is that key.
\<close>

definition setProp :: "obj \<Rightarrow> string \<Rightarrow> jsval \<Rightarrow> obj" where
  "setProp ob k v =
     (if hasOwn ob k then replaceProp ob k v
      else if isArrayIndex k then insertIndex ob k v
      else ob @ [(k, v)])"

definition assignAll :: "obj \<Rightarrow> (string \<times> jsval) list \<Rightarrow> obj" where
  "assignAll ob kvs = foldl (\<lambda>res (k, v). setProp res k v) ob kvs"

text \<open>
  The own enumerable string-keyed properties of a value, as lodash \<^verbatim>\<open>entries\<close> and an
  object spread \<^verbatim>\<open>...v\<close> both read them: the properties of an object, the indexed
  characters of a string, nothing for the other primitives.
\<close>

fun entries :: "jsval \<Rightarrow> (string \<times> jsval) list" where
  "entries (JObj kvs) = kvs"
| "entries (JStr s) = map (\<lambda>i. (showNat i, JStr [s ! i])) [0 ..< length s]"
| "entries v = []"

text \<open>The object literal \<^verbatim>\<open>{ ...a, ...b }\<close>.\<close>

definition spread2 :: "jsval \<Rightarrow> jsval \<Rightarrow> obj" where
  "spread2 a b = assignAll (assignAll [] (entries a)) (entries b)"

text \<open>
  lodash \<^verbatim>\<open>mapKeys(object, iteratee)\<close>: a new object that holds every own property of
  \<open>object\<close> under the key \<open>iteratee(value, key)\<close>, assigned in enumeration order.
\<close>

definition mapKeys :: "obj \<Rightarrow> (jsval \<Rightarrow> string \<Rightarrow> string) \<Rightarrow> obj" where
  "mapKeys ob iteratee = foldl (\<lambda>res (k, v). setProp res (iteratee v k) v) [] ob"

section \<open>lodash \<^verbatim>\<open>kebabCase\<close> on ASCII keys\<close>

text \<open>
  Modelled from the spec: \<^verbatim>\<open>kebabCase\<close> is imported from lodash, whose source is not part
  of the repository; the spec describes it as kebab-case (lowercase, dash-separated). The
  functions of \<^verbatim>\<open>style.js\<close> below take the case conversion as a parameter \<open>kebab\<close>, so
  their theorems hold for every such function. The definition here follows lodash 4 on
  ASCII input (where \<^verbatim>\<open>deburr\<close> is the identity): apostrophes are removed, the string is
  split into words, the words are lower-cased and joined by dashes. It is used to
  evaluate concrete configurations.
\<close>

definition isUpper :: "char \<Rightarrow> bool" where
  "isUpper c = (c \<in> set ''ABCDEFGHIJKLMNOPQRSTUVWXYZ'')"

definition isLower :: "char \<Rightarrow> bool" where
  "isLower c = (c \<in> set ''abcdefghijklmnopqrstuvwxyz'')"

definition isLetter :: "char \<Rightarrow> bool" where
  "isLetter c = (isUpper c \<or> isLower c)"

definition isAlnum :: "char \<Rightarrow> bool" where
  "isAlnum c = (isLetter c \<or> isDigit c)"

definition toLower :: "char \<Rightarrow> char" where
  "toLower c =
     (case map_of (zip ''ABCDEFGHIJKLMNOPQRSTUVWXYZ'' ''abcdefghijklmnopqrstuvwxyz'') c of
        Some l \<Rightarrow> l
      | None \<Rightarrow> c)"

text \<open>
  \<^verbatim>\<open>/[a-z][A-Z]|[A-Z]{2}[a-z]|[0-9][a-zA-Z]|[a-zA-Z][0-9]|[^a-zA-Z0-9 ]/\<close>: whether the
  string needs the compound-word splitter.
\<close>

fun hasUnicodeWord :: "string \<Rightarrow> bool" where
  "hasUnicodeWord [] = False"
| "hasUnicodeWord (a # s) =
     ((\<not> isAlnum a \<and> a \<noteq> CHR '' '')
      \<or> (case s of
            [] \<Rightarrow> False
          | b # t \<Rightarrow>
              (isLower a \<and> isUpper b) \<or> (isDigit a \<and> isLetter b) \<or> (isLetter a \<and> isDigit b)
              \<or> (isUpper a \<and> isUpper b \<and> (case t of [] \<Rightarrow> False | c # u \<Rightarrow> isLower c)))
      \<or> hasUnicodeWord s)"

text \<open>\<^verbatim>\<open>asciiWords\<close>: the maximal runs of letters and digits.\<close>

fun asciiWordsFrom :: "string \<Rightarrow> string \<Rightarrow> string list" where
  "asciiWordsFrom cur [] = (if cur = [] then [] else [cur])"
| "asciiWordsFrom cur (c # s) =
     (if isAlnum c then asciiWordsFrom (cur @ [c]) s
      else (if cur = [] then [] else [cur]) @ asciiWordsFrom [] s)"

definition asciiWords :: "string \<Rightarrow> string list" where
  "asciiWords s = asciiWordsFrom [] s"

text \<open>
  The ordinal alternatives of \<^verbatim>\<open>reUnicodeWord\<close>,
  \<^verbatim>\<open>\d*(?:1ST|2ND|3RD|(?![123])\dTH)(?=\b|[a-z_])\<close> and its lower-case twin: \<open>d\<close> is the
  last digit of the run of digits, \<open>rest\<close> what follows the run.
\<close>

definition ordUpper :: "char \<Rightarrow> string \<Rightarrow> bool" where
  "ordUpper d rest =
     (case rest of
        a # b # t \<Rightarrow>
          ((d = CHR ''1'' \<and> [a, b] = ''ST'') \<or> (d = CHR ''2'' \<and> [a, b] = ''ND'')
           \<or> (d = CHR ''3'' \<and> [a, b] = ''RD'') \<or> (d \<notin> set ''123'' \<and> [a, b] = ''TH''))
          \<and> (case t of [] \<Rightarrow> True | x # u \<Rightarrow> \<not> isUpper x \<and> \<not> isDigit x)
      | _ \<Rightarrow> False)"

definition ordLower :: "char \<Rightarrow> string \<Rightarrow> bool" where
  "ordLower d rest =
     (case rest of
        a # b # t \<Rightarrow>
          ((d = CHR ''1'' \<and> [a, b] = ''st'') \<or> (d = CHR ''2'' \<and> [a, b] = ''nd'')
           \<or> (d = CHR ''3'' \<and> [a, b] = ''rd'') \<or> (d \<notin> set ''123'' \<and> [a, b] = ''th''))
          \<and> (case t of [] \<Rightarrow> True | x # u \<Rightarrow> \<not> isLower x \<and> \<not> isDigit x)
      | _ \<Rightarrow> False)"

text \<open>
  The length of the match of \<^verbatim>\<open>reUnicodeWord\<close> at the start of an ASCII string, \<open>0\<close> when
  there is none: a run of lower-case letters with at most one capital before it; a run of
  capitals, without its last letter when a lower-case letter follows; an ordinal; a run
  of digits.
\<close>

definition matchLen :: "string \<Rightarrow> nat" where
  "matchLen s =
     (case s of
        [] \<Rightarrow> 0
      | c # cs \<Rightarrow>
          if isLower c then length (takeWhile isLower s)
          else if isUpper c then
            (let n = length (takeWhile isUpper s); rest = dropWhile isUpper s in
             if rest \<noteq> [] \<and> isLower (hd rest)
             then (if n = 1 then 1 + length (takeWhile isLower rest) else n - 1)
             else n)
          else if isDigit c then
            (let ds = takeWhile isDigit s; rest = dropWhile isDigit s in
             if ordUpper (last ds) rest \<or> ordLower (last ds) rest then length ds + 2
             else length ds)
          else 0)"

function unicodeWords :: "string \<Rightarrow> string list" where
  "unicodeWords s =
     (if s = [] then []
      else if matchLen s = 0 then unicodeWords (tl s)
      else take (matchLen s) s # unicodeWords (drop (matchLen s) s))"
  by pat_completeness auto
termination
  by (relation "measure length") auto

declare unicodeWords.simps [simp del]

definition words :: "string \<Rightarrow> string list" where
  "words s = (if hasUnicodeWord s then unicodeWords s else asciiWords s)"

definition kebabCase :: "string \<Rightarrow> string" where
  "kebabCase s =
     (case words (filter (\<lambda>c. c \<noteq> CHR 0x27) s) of
        [] \<Rightarrow> []
      | w # ws \<Rightarrow> foldl (\<lambda>result word. result @ ''-'' @ map toLower word) (map toLower w) ws)"

section \<open>\<^verbatim>\<open>getCSSVariables\<close>\<close>

definition prefix :: string where
  "prefix = ''--wp''"

definition token :: string where
  "token = ''--''"

text \<open>
  The body of \<^verbatim>\<open>getNestedCSSVariables\<close>: the \<^verbatim>\<open>forEach\<close> over the entries of the
  configuration, with the local \<^verbatim>\<open>result\<close> as accumulator. A value that is not an object
  is stored under the kebab-cased key; an object is flattened by the recursive call, its
  keys are prefixed by \<^verbatim>\<open>mapKeys\<close>, and \<^verbatim>\<open>result\<close> becomes the spread of both.
\<close>

function getNestedCSSVariables_forEach ::
    "(string \<Rightarrow> string) \<Rightarrow> obj \<Rightarrow> (string \<times> jsval) list \<Rightarrow> obj" where
  "getNestedCSSVariables_forEach kebab result [] = result"
| "getNestedCSSVariables_forEach kebab result ((key, value) # rest) =
     (if \<not> isObject value
      then getNestedCSSVariables_forEach kebab (setProp result (kebab key) value) rest
      else getNestedCSSVariables_forEach kebab
             (spread2 (JObj result)
                (JObj (mapKeys (getNestedCSSVariables_forEach kebab [] (entries value))
                         (\<lambda>_ subkey. kebab key @ token @ subkey))))
             rest)"
  by pat_completeness auto
termination
  by (relation "measure (\<lambda>(kebab, result, es). size_list (size_prod (\<lambda>k. 0) size) es)")
     (auto elim!: isObject.elims(2))

definition getNestedCSSVariables :: "(string \<Rightarrow> string) \<Rightarrow> jsval \<Rightarrow> obj" where
  "getNestedCSSVariables kebab config = getNestedCSSVariables_forEach kebab [] (entries config)"

text \<open>
  \<^verbatim>\<open>getCSSVariables( styles = {} )\<close>: the default applies to \<^verbatim>\<open>undefined\<close> only.
\<close>

definition getCSSVariables :: "(string \<Rightarrow> string) \<Rightarrow> jsval \<Rightarrow> obj" where
  "getCSSVariables kebab styles =
     (let styles = (if styles = JUndefined then JObj [] else styles) in
      mapKeys (getNestedCSSVariables kebab styles) (\<lambda>_ key. prefix @ token @ key))"

section \<open>\<^verbatim>\<open>getInlineStyles\<close>\<close>

text \<open>
  lodash \<^verbatim>\<open>has\<close> and \<^verbatim>\<open>get\<close> with an array path. \<^verbatim>\<open>baseHas\<close> is
  \<^verbatim>\<open>object != null && hasOwnProperty.call(object, key)\<close>; a string owns its \<^verbatim>\<open>length\<close> and
  its indices, a boolean or a number owns nothing. \<open>readMember\<close> is the read \<^verbatim>\<open>object[key]\<close>
  of a value that is neither \<^verbatim>\<open>null\<close> nor \<^verbatim>\<open>undefined\<close>; properties inherited from the
  built-in prototypes are not modelled, and none of the keys this module reads is one.
\<close>

fun baseHas :: "jsval \<Rightarrow> string \<Rightarrow> bool" where
  "baseHas (JObj kvs) key = hasOwn kvs key"
| "baseHas (JStr s) key = (key = ''length'' \<or> (isArrayIndex key \<and> toNumber key < int (length s)))"
| "baseHas v key = False"

fun readMember :: "jsval \<Rightarrow> string \<Rightarrow> jsval" where
  "readMember (JObj kvs) key = getProp kvs key"
| "readMember (JStr s) key =
     (if key = ''length'' then JNum (int (length s))
      else if isArrayIndex key \<and> toNumber key < int (length s) then JStr [s ! nat (toNumber key)]
      else JUndefined)"
| "readMember v key = JUndefined"

definition isNullish :: "jsval \<Rightarrow> bool" where
  "isNullish v = (v = JUndefined \<or> v = JNull)"

text \<open>
  \<^verbatim>\<open>hasPath\<close>: every key of the path is an own property of the value reached so far.
  Its fallback for an index into an array does not apply to the values modelled here.
\<close>

fun hasPath :: "jsval \<Rightarrow> string list \<Rightarrow> bool" where
  "hasPath object [] = False"
| "hasPath object (key # path) =
     (\<not> isNullish object \<and> baseHas object key \<and> (path = [] \<or> hasPath (readMember object key) path))"

definition has :: "jsval \<Rightarrow> string list \<Rightarrow> bool" where
  "has object path = (\<not> isNullish object \<and> hasPath object path)"

fun baseGetLoop :: "jsval \<Rightarrow> string list \<Rightarrow> jsval" where
  "baseGetLoop object [] = object"
| "baseGetLoop object (key # path) =
     (if isNullish object then JUndefined else baseGetLoop (readMember object key) path)"

definition get :: "jsval \<Rightarrow> string list \<Rightarrow> jsval" where
  "get object path = (if isNullish object \<or> path = [] then JUndefined else baseGetLoop object path)"

definition mappings :: "(string \<times> string list) list" where
  "mappings =
     [(''lineHeight'', [''typography'', ''lineHeight'']),
      (''backgroundColor'', [''color'', ''background'']),
      (''color'', [''color'', ''text''])]"

definition getInlineStyles :: "jsval \<Rightarrow> obj" where
  "getInlineStyles styles =
     (let styles = (if styles = JUndefined then JObj [] else styles) in
      foldl (\<lambda>output (styleKey, objectKey).
               if has styles objectKey then setProp output styleKey (get styles objectKey)
               else output)
        [] mappings)"

section \<open>Block types, prop bags and the ambient flag\<close>

text \<open>
  A prop bag is a mutable object that \<^verbatim>\<open>addSaveProps\<close> changes in place and returns, so
  prop bags live in a store of objects and are passed by reference. \<open>newObject\<close> is the
  object literal \<^verbatim>\<open>{}\<close>.
\<close>

type_synonym ref = nat

record heap =
  cells :: "ref \<Rightarrow> obj"
  next_ref :: ref

definition newObject :: "heap \<Rightarrow> heap \<times> ref" where
  "newObject h = (h\<lparr>cells := (cells h)(next_ref h := []), next_ref := Suc (next_ref h)\<rparr>, next_ref h)"

datatype error = TypeError

text \<open>
  Modelled from the spec: the support keys \<^verbatim>\<open>COLOR_SUPPORT_KEY\<close> (from \<^verbatim>\<open>./color\<close>) and
  \<^verbatim>\<open>LINE_HEIGHT_SUPPRT_KEY\<close> (from \<^verbatim>\<open>./line-height\<close>) and \<^verbatim>\<open>hasBlockSupport\<close> (from
  \<^verbatim>\<open>@wordpress/blocks\<close>) are not among the source files. The spec names the capabilities
  colour support and line-height support, and a block type has style support when it
  declares at least one of them. A feature is one of the two named keys or any other
  capability name; a block type lists the features it declares.
\<close>

datatype feature = COLOR_SUPPORT_KEY | LINE_HEIGHT_SUPPRT_KEY | OtherFeature string

text \<open>
  A block type descriptor (the \<^verbatim>\<open>settings\<close> of a registration): its declared features, its
  attribute declarations (\<^verbatim>\<open>addAttribute\<close> reads \<^verbatim>\<open>settings.attributes.style\<close> without a
  guard, so the mapping is there), and the optional callback \<^verbatim>\<open>getEditWrapperProps\<close>. A
  callback is a JavaScript function of the instance attributes; it runs against the
  current \<^verbatim>\<open>window\<close> and store, and either throws or returns a prop bag.
\<close>

record blockType =
  supports :: "feature list"
  attributes :: obj
  getEditWrapperProps :: "(jsval \<Rightarrow> heap \<Rightarrow> jsval \<Rightarrow> error + heap \<times> ref) option"

definition hasBlockSupport :: "blockType \<Rightarrow> feature \<Rightarrow> bool" where
  "hasBlockSupport blockType key = (key \<in> set (supports blockType))"

definition styleSupportKeys :: "feature list" where
  "styleSupportKeys = [COLOR_SUPPORT_KEY, LINE_HEIGHT_SUPPRT_KEY]"

definition hasStyleSupport :: "blockType \<Rightarrow> bool" where
  "hasStyleSupport blockType = list_ex (\<lambda>key. hasBlockSupport blockType key) styleSupportKeys"

text \<open>
  \<^verbatim>\<open>window && window.__unstableSupportsGlobalStyles\<close>: the value of the expression, which
  the caller tests for truthiness. The global \<^verbatim>\<open>window\<close> is an argument of every function
  that reads it; an environment in which \<^verbatim>\<open>window\<close> is not declared is not modelled.
\<close>

definition hasGlobalStylesSupport :: "jsval \<Rightarrow> jsval" where
  "hasGlobalStylesSupport window =
     (if truthy window then readMember window ''__unstableSupportsGlobalStyles'' else window)"

section \<open>The three filters\<close>


text \<open>
  \<^verbatim>\<open>addSaveProps( props, blockType, attributes )\<close>. The destructuring
  \<^verbatim>\<open>const { style } = attributes\<close> throws a \<^verbatim>\<open>TypeError\<close> when \<^verbatim>\<open>attributes\<close> is
  \<^verbatim>\<open>undefined\<close> or \<^verbatim>\<open>null\<close>. The assignment to \<^verbatim>\<open>props.style\<close> updates the object that
  \<open>props\<close> refers to; the reference itself is returned.
\<close>

definition addSaveProps ::
    "(string \<Rightarrow> string) \<Rightarrow> jsval \<Rightarrow> heap \<Rightarrow> ref \<Rightarrow> blockType \<Rightarrow> jsval \<Rightarrow> error + heap \<times> ref" where
  "addSaveProps kebab window h props blockType attrs =
     (if \<not> hasStyleSupport blockType then Inr (h, props)
      else if isNullish attrs then Inl TypeError
      else
        (let style = readMember attrs ''style'' in
         if truthy (hasGlobalStylesSupport window)
         then Inr (h\<lparr>cells := (cells h)(props :=
                      setProp (cells h props) ''style''
                        (JObj (spread2 (JObj (getCSSVariables kebab style))
                                 (getProp (cells h props) ''style''))))\<rparr>, props)
         else Inr (h\<lparr>cells := (cells h)(props :=
                      setProp (cells h props) ''style''
                        (JObj (spread2 (JObj (getInlineStyles style))
                                 (getProp (cells h props) ''style''))))\<rparr>, props)))"

text \<open>
  \<^verbatim>\<open>addEditProps( settings )\<close>. The new callback closes over \<^verbatim>\<open>settings\<close> and over the
  callback that was installed before; of \<^verbatim>\<open>settings\<close> it only reads the declared features
  (through \<^verbatim>\<open>hasStyleSupport\<close>), which the assignment of the callback leaves as they are.
\<close>

definition addEditProps :: "(string \<Rightarrow> string) \<Rightarrow> blockType \<Rightarrow> blockType" where
  "addEditProps kebab settings =
     (if \<not> hasStyleSupport settings then settings
      else
        (let existingGetEditWrapperProps = getEditWrapperProps settings in
         settings\<lparr>getEditWrapperProps := Some (\<lambda>window h attrs.
           (let (h0, props0) = newObject h in
            case (case existingGetEditWrapperProps of
                    None \<Rightarrow> Inr (h0, props0)
                  | Some existing \<Rightarrow> existing window h0 attrs) of
              Inl e \<Rightarrow> Inl e
            | Inr (h1, props) \<Rightarrow> addSaveProps kebab window h1 props settings attrs))\<rparr>))"

section \<open>The flattening as the specification words it\<close>

text \<open>
  The entries the flattening emits, in the order of the traversal: a leaf at key \<open>K\<close> is
  emitted under \<open>kebab K\<close>; a container at key \<open>K\<close> is flattened, and each of its entries
  \<open>R \<rightarrow> V\<close> is emitted as \<open>kebab K @ ''--'' @ R \<rightarrow> V\<close>. In the accumulator a later entry
  overrides an earlier one of the same name, so the accumulated mapping is
  \<open>map_of (rev (flattenSpec kebab config))\<close>.
\<close>

function flattenSpec :: "(string \<Rightarrow> string) \<Rightarrow> (string \<times> jsval) list \<Rightarrow> (string \<times> jsval) list" where
  "flattenSpec kebab [] = []"
| "flattenSpec kebab ((K, value) # rest) =
     (if isObject value
      then map (\<lambda>(R, V). (kebab K @ ''--'' @ R, V)) (flattenSpec kebab (entries value))
      else [(kebab K, value)])
     @ flattenSpec kebab rest"
  by pat_completeness auto
termination
  by (relation "measure (\<lambda>(kebab, es). size_list (size_prod (\<lambda>k. 0) size) es)")
     (auto elim!: isObject.elims(2))

text \<open>The top-level prefix: every name of the result starts with \<open>--wp--\<close>.\<close>

definition withPrefix :: "(string \<times> jsval) list \<Rightarrow> (string \<times> jsval) list" where
  "withPrefix xs = map (\<lambda>(R, V). (''--wp--'' @ R, V)) xs"

section \<open>Paths into a style configuration\<close>

text \<open>
  The value at the two-key path \<open>a.b\<close> of a configuration, when the path exists: \<open>a\<close> is a
  key of the configuration, its value is a nested configuration, and \<open>b\<close> is a key of
  that one. \<open>pick\<close> is the output entry such a lookup contributes: one entry when the
  path exists, none otherwise.
\<close>

definition lookupPath :: "obj \<Rightarrow> string \<Rightarrow> string \<Rightarrow> jsval option" where
  "lookupPath config a b = (case map_of config a of Some (JObj inner) \<Rightarrow> map_of inner b | _ \<Rightarrow> None)"

definition pick :: "string \<Rightarrow> jsval option \<Rightarrow> obj" where
  "pick name r = (case r of Some v \<Rightarrow> [(name, v)] | None \<Rightarrow> [])"

section \<open>Keys of a configuration and names of its leaves\<close>

text \<open>
  \<open>keysDistinct\<close>: at every nesting level the keys of the mapping are pairwise distinct,
  as the keys of a JavaScript object are. \<open>kebabKeysDistinct\<close>: at every nesting level
  the kebab-cased keys are pairwise distinct. \<open>dashSafe\<close>: a string that does not contain
  \<open>--\<close> and does not end in a dash, as every kebab-case form is.
\<close>

function keysDistinct :: "(string \<times> jsval) list \<Rightarrow> bool" where
  "keysDistinct [] = True"
| "keysDistinct ((k, value) # rest) =
     (k \<notin> set (map fst rest)
      \<and> (if isObject value then keysDistinct (entries value) else True)
      \<and> keysDistinct rest)"
  by pat_completeness auto
termination
  by (relation "measure (size_list (size_prod (\<lambda>k. 0) size))")
     (auto elim!: isObject.elims(2))

fun hasDoubleDash :: "string \<Rightarrow> bool" where
  "hasDoubleDash (a # b # s) = ((a = CHR ''-'' \<and> b = CHR ''-'') \<or> hasDoubleDash (b # s))"
| "hasDoubleDash s = False"

definition dashSafe :: "string \<Rightarrow> bool" where
  "dashSafe s = (\<not> hasDoubleDash s \<and> (s = [] \<or> last s \<noteq> CHR ''-''))"

function kebabKeysDistinct :: "(string \<Rightarrow> string) \<Rightarrow> (string \<times> jsval) list \<Rightarrow> bool" where
  "kebabKeysDistinct kebab [] = True"
| "kebabKeysDistinct kebab ((k, value) # rest) =
     (kebab k \<notin> set (map kebab (map fst rest))
      \<and> (if isObject value then kebabKeysDistinct kebab (entries value) else True)
      \<and> kebabKeysDistinct kebab rest)"
  by pat_completeness auto
termination
  by (relation "measure (\<lambda>(kebab, es). size_list (size_prod (\<lambda>k. 0) size) es)")
     (auto elim!: isObject.elims(2))

section \<open>The computed style values and the host's call of the wrapper\<close>

text \<open>
  \<open>computedStyle\<close> names the values \<^verbatim>\<open>addSaveProps\<close> computes from the \<^verbatim>\<open>style\<close> attribute:
  the flattened variables when the global-styles flag is truthy, the inline style
  properties otherwise. \<open>styleOf\<close> reads \<^verbatim>\<open>props.style\<close>. \<open>callEditWrapper\<close> is the host's
  call \<^verbatim>\<open>settings.getEditWrapperProps( attributes )\<close>; calling a callback that is not
  there is a \<^verbatim>\<open>TypeError\<close>.
\<close>

definition computedStyle :: "(string \<Rightarrow> string) \<Rightarrow> jsval \<Rightarrow> jsval \<Rightarrow> obj" where
  "computedStyle kebab window attrs =
     (if truthy (hasGlobalStylesSupport window)
      then getCSSVariables kebab (readMember attrs ''style'')
      else getInlineStyles (readMember attrs ''style''))"

definition styleOf :: "heap \<Rightarrow> ref \<Rightarrow> jsval" where
  "styleOf h props = getProp (cells h props) ''style''"

definition otherProps :: "obj \<Rightarrow> obj" where
  "otherProps ob = filter (\<lambda>(k, v). k \<noteq> ''style'') ob"

definition callEditWrapper :: "blockType \<Rightarrow> jsval \<Rightarrow> heap \<Rightarrow> jsval \<Rightarrow> error + heap \<times> ref" where
  "callEditWrapper settings window h attrs =
     (case getEditWrapperProps settings of
        None \<Rightarrow> Inl TypeError
      | Some callback \<Rightarrow> callback window h attrs)"

section \<open>Properties\<close>

subsection \<open>Assignments to a plain object\<close>

lemma map_of_replaceProp_at:
  "map_of (replaceProp ob k v) k' = (if k' = k \<and> hasOwn ob k then Some v else map_of ob k')"
  by (induction ob) (auto simp: hasOwn_def)

lemma keys_replaceProp: "map fst (replaceProp ob k v) = map fst ob"
  by (induction ob) auto

lemma map_of_insertIndex_at:
  "map_of (insertIndex ob k v) k' = (if k' = k then Some v else map_of ob k')"
  by (induction ob) auto

lemma set_insertIndex: "set (insertIndex ob k v) = insert (k, v) (set ob)"
  by (induction ob) (auto split: if_splits)

lemma set_keys_insertIndex: "set (map fst (insertIndex ob k v)) = insert k (set (map fst ob))"
  by (simp add: set_insertIndex)

lemma distinct_insertIndex:
  "distinct (map fst ob) \<Longrightarrow> k \<notin> set (map fst ob) \<Longrightarrow> distinct (map fst (insertIndex ob k v))"
proof (induction ob)
  case Nil
  then show ?case by simp
next
  case (Cons p ob)
  obtain k' v' where p: "p = (k', v')" by (cases p)
  have "k' \<notin> set (map fst (insertIndex ob k v))"
    using Cons.prems unfolding p set_keys_insertIndex by auto
  with Cons show ?case by (auto simp: p)
qed

lemma hasOwn_iff: "hasOwn ob k \<longleftrightarrow> k \<in> set (map fst ob)"
  by (auto simp: hasOwn_def map_of_eq_None_iff)

lemma map_of_setProp_at:
  "map_of (setProp ob k v) k' = (if k' = k then Some v else map_of ob k')"
proof (cases "hasOwn ob k")
  case True
  then show ?thesis by (simp add: setProp_def map_of_replaceProp_at)
next
  case False
  then have "map_of ob k = None" by (simp add: hasOwn_def)
  with False show ?thesis
    by (simp add: setProp_def map_of_insertIndex_at map_add_def split: option.splits)
qed

lemma map_of_setProp: "map_of (setProp ob k v) = (map_of ob)(k \<mapsto> v)"
  by (rule ext) (simp add: map_of_setProp_at)

lemma distinct_setProp: "distinct (map fst ob) \<Longrightarrow> distinct (map fst (setProp ob k v))"
  by (auto simp: setProp_def keys_replaceProp distinct_insertIndex hasOwn_iff)

lemma getProp_setProp: "getProp (setProp ob k v) k' = (if k' = k then v else getProp ob k')"
  by (simp add: getProp_def map_of_setProp)

lemma assignAll_Nil: "assignAll ob [] = ob"
  by (simp add: assignAll_def)

lemma assignAll_Cons: "assignAll ob ((k, v) # kvs) = assignAll (setProp ob k v) kvs"
  by (simp add: assignAll_def)

lemma map_of_assignAll: "map_of (assignAll ob kvs) = map_of ob ++ map_of (rev kvs)"
proof (induction kvs arbitrary: ob)
  case Nil
  then show ?case by (simp add: assignAll_Nil)
next
  case (Cons p kvs)
  obtain k v where p: "p = (k, v)" by (cases p)
  have "map_of (assignAll ob (p # kvs)) = (map_of ob)(k \<mapsto> v) ++ map_of (rev kvs)"
    unfolding p assignAll_Cons Cons.IH map_of_setProp ..
  also have "\<dots> = map_of ob ++ map_of (rev (p # kvs))"
    by (rule ext) (simp add: p map_add_def split: option.splits)
  finally show ?case .
qed

lemma distinct_assignAll: "distinct (map fst ob) \<Longrightarrow> distinct (map fst (assignAll ob kvs))"
proof (induction kvs arbitrary: ob)
  case Nil
  then show ?case by (simp add: assignAll_Nil)
next
  case (Cons p kvs)
  then show ?case by (cases p) (simp add: assignAll_Cons distinct_setProp)
qed

lemma map_of_rev_distinct: "distinct (map fst xs) \<Longrightarrow> map_of (rev xs) = map_of xs"
  using map_of_inject_set [of "rev xs" xs] by (simp add: rev_map [symmetric])

lemma mapKeys_assignAll: "mapKeys ob f = assignAll [] (map (\<lambda>(k, v). (f v k, v)) ob)"
  by (simp add: mapKeys_def assignAll_def foldl_map case_prod_unfold)

lemma distinct_mapKeys: "distinct (map fst (mapKeys ob f))"
  by (simp add: mapKeys_assignAll distinct_assignAll)

lemma map_of_mapKeys: "map_of (mapKeys ob f) = map_of (rev (map (\<lambda>(k, v). (f v k, v)) ob))"
  by (simp add: mapKeys_assignAll map_of_assignAll)

lemma map_of_spread2:
  "map_of (spread2 a b) = map_of (rev (entries a)) ++ map_of (rev (entries b))"
  by (simp add: spread2_def map_of_assignAll)

lemma distinct_spread2: "distinct (map fst (spread2 a b))"
  by (simp add: spread2_def distinct_assignAll)

subsection \<open>\<^verbatim>\<open>getCSSVariables\<close> computes the specified flattening\<close>

lemma map_of_rekey_at:
  "map_of (map (\<lambda>(k, v). (p @ k, v)) xs) k' =
     (if take (length p) k' = p then map_of xs (drop (length p) k') else None)"
proof (induction xs)
  case Nil
  then show ?case by simp
next
  case (Cons x xs)
  obtain k v where x: "x = (k, v)" by (cases x)
  have "(k' = p @ k) \<longleftrightarrow> (take (length p) k' = p \<and> drop (length p) k' = k)"
    by (metis append_eq_conv_conj)
  with Cons.IH show ?case by (auto simp: x)
qed

lemma map_of_rekey_cong:
  assumes "map_of xs = map_of ys"
  shows "map_of (map (\<lambda>(k, v). (p @ k, v)) xs) = map_of (map (\<lambda>(k, v). (p @ k, v)) ys)"
  by (rule ext) (simp add: map_of_rekey_at assms)

lemma map_of_mapKeys_prefix:
  assumes "distinct (map fst ob)" and "map_of ob = map_of (rev xs)"
  shows "map_of (mapKeys ob (\<lambda>_ k. p @ k)) = map_of (rev (map (\<lambda>(k, v). (p @ k, v)) xs))"
proof -
  have "map_of (mapKeys ob (\<lambda>_ k. p @ k)) = map_of (map (\<lambda>(k, v). (p @ k, v)) (rev ob))"
    by (simp add: map_of_mapKeys rev_map)
  also have "\<dots> = map_of (map (\<lambda>(k, v). (p @ k, v)) (rev xs))"
    by (rule map_of_rekey_cong) (simp add: assms map_of_rev_distinct)
  finally show ?thesis by (simp add: rev_map)
qed

lemma forEach_refines:
  "distinct (map fst result) \<Longrightarrow>
     distinct (map fst (getNestedCSSVariables_forEach kebab result es)) \<and>
     map_of (getNestedCSSVariables_forEach kebab result es)
       = map_of result ++ map_of (rev (flattenSpec kebab es))"
proof (induction kebab result es rule: getNestedCSSVariables_forEach.induct)
  case (1 kebab result)
  then show ?case by simp
next
  case (2 kebab result key "value" rest)
  show ?case
  proof (cases "isObject value")
    case False
    have d: "distinct (map fst (setProp result (kebab key) value))"
      using "2.prems" by (rule distinct_setProp)
    have step: "getNestedCSSVariables_forEach kebab result ((key, value) # rest)
                  = getNestedCSSVariables_forEach kebab (setProp result (kebab key) value) rest"
      using False by simp
    have flat: "rev (flattenSpec kebab ((key, value) # rest))
                  = rev (flattenSpec kebab rest) @ [(kebab key, value)]"
      using False by simp
    have "(map_of result)(kebab key \<mapsto> value) ++ map_of (rev (flattenSpec kebab rest))
            = map_of result ++ map_of (rev (flattenSpec kebab rest) @ [(kebab key, value)])"
      by (rule ext) (simp add: map_add_def split: option.splits)
    then have "map_of (setProp result (kebab key) value) ++ map_of (rev (flattenSpec kebab rest))
            = map_of result ++ map_of (rev (flattenSpec kebab ((key, value) # rest)))"
      unfolding flat map_of_setProp .
    with "2.IH"(1) [OF False d] show ?thesis
      unfolding step by (intro conjI) (erule conjunct1, erule conjunct2 [THEN trans])
  next
    case True
    let ?child = "getNestedCSSVariables_forEach kebab [] (entries value)"
    let ?p = "kebab key @ token"
    let ?mapped = "mapKeys ?child (\<lambda>_ subkey. kebab key @ token @ subkey)"
    let ?flat = "map (\<lambda>(k, v). (?p @ k, v)) (flattenSpec kebab (entries value))"
    have child: "distinct (map fst ?child)" "map_of ?child = map_of (rev (flattenSpec kebab (entries value)))"
      using "2.IH"(2) [of] True by simp_all
    have mapped: "map_of ?mapped = map_of (rev ?flat)"
      using map_of_mapKeys_prefix [OF child, where p = "kebab key @ token"] by simp
    let ?result = "spread2 (JObj result) (JObj ?mapped)"
    have d: "distinct (map fst ?result)"
      by (rule distinct_spread2)
    have m: "map_of ?result = map_of result ++ map_of (rev ?flat)"
      by (simp add: map_of_spread2 map_of_rev_distinct "2.prems" distinct_mapKeys mapped)
    from "2.IH"(3) [OF _ d] True m show ?thesis
      by (simp add: token_def)
  qed
qed

lemma getNestedCSSVariables_refines:
  "distinct (map fst (getNestedCSSVariables kebab (JObj config)))"
  "map_of (getNestedCSSVariables kebab (JObj config)) = map_of (rev (flattenSpec kebab config))"
  using forEach_refines [of "[]" kebab config] by (simp_all add: getNestedCSSVariables_def)

lemma getCSSVariables_refines:
  "map_of (getCSSVariables kebab (JObj config)) = map_of (rev (withPrefix (flattenSpec kebab config)))"
  using map_of_mapKeys_prefix [OF getNestedCSSVariables_refines, where p = "prefix @ token"]
  by (simp add: getCSSVariables_def withPrefix_def prefix_def token_def)

lemma getCSSVariables_distinct: "distinct (map fst (getCSSVariables kebab styles))"
  by (simp add: getCSSVariables_def Let_def distinct_mapKeys)

lemma flattenSpec_flat:
  "\<forall>(k, v) \<in> set config. \<not> isObject v \<Longrightarrow>
     flattenSpec kebab config = map (\<lambda>(k, v). (kebab k, v)) config"
  by (induction config) auto

text \<open>
  Claim C1. For every style configuration, \<^verbatim>\<open>getCSSVariables\<close> computes the flattening
  the specification describes: as a mapping, its result is the list of emitted entries
  \<open>flattenSpec\<close> (leaf at \<open>K\<close> under \<open>kebab K\<close>, entries of a container at \<open>K\<close> re-keyed
  with \<open>kebab K @ ''--''\<close>), every name prefixed with \<open>--wp--\<close>, a later entry overriding
  an earlier one of the same name. The configuration
  \<^verbatim>\<open>{ typography: { lineHeight: "2" } }\<close> yields \<^verbatim>\<open>{ "--wp--typography--line-height": "2" }\<close>,
  and a configuration without nested containers yields the mapping with the entries
  \<open>''--wp--'' @ kebab k \<mapsto> v\<close>.
\<close>

theorem getCSSVariables_flattens:
  "map_of (getCSSVariables kebab (JObj config))
     = map_of (rev (withPrefix (flattenSpec kebab config)))
   \<and> getCSSVariables kebabCase (JObj [(''typography'', JObj [(''lineHeight'', JStr ''2'')])])
     = [(''--wp--typography--line-height'', JStr ''2'')]
   \<and> (list_all (\<lambda>(k, v). \<not> isObject v) config \<longrightarrow>
        map_of (getCSSVariables kebab (JObj config))
          = map_of (rev (map (\<lambda>(k, v). (''--wp--'' @ kebab k, v)) config)))"
proof (intro conjI impI)
  show "map_of (getCSSVariables kebab (JObj config))
          = map_of (rev (withPrefix (flattenSpec kebab config)))"
    by (rule getCSSVariables_refines)
  show "getCSSVariables kebabCase (JObj [(''typography'', JObj [(''lineHeight'', JStr ''2'')])])
          = [(''--wp--typography--line-height'', JStr ''2'')]"
    by code_simp
  assume "list_all (\<lambda>(k, v). \<not> isObject v) config"
  then have "\<forall>(k, v) \<in> set config. \<not> isObject v"
    by (simp add: list_all_iff)
  then have "withPrefix (flattenSpec kebab config)
               = map (\<lambda>(k, v). (''--wp--'' @ kebab k, v)) config"
    by (simp add: flattenSpec_flat withPrefix_def case_prod_unfold)
  then show "map_of (getCSSVariables kebab (JObj config))
               = map_of (rev (map (\<lambda>(k, v). (''--wp--'' @ kebab k, v)) config))"
    by (simp add: getCSSVariables_refines)
qed

theorem getCSSVariables_flattens_witness:
  "list_all (\<lambda>(k, v). \<not> isObject v) [(''lineHeight'', JStr ''2''), (''fontSize'', JNum 16)]
   \<and> map_of (getCSSVariables kebabCase (JObj [(''lineHeight'', JStr ''2''), (''fontSize'', JNum 16)]))
     = map_of (rev (map (\<lambda>(k, v). (''--wp--'' @ kebabCase k, v))
                      [(''lineHeight'', JStr ''2''), (''fontSize'', JNum 16)]))"
proof -
  have flat: "list_all (\<lambda>(k, v). \<not> isObject v) [(''lineHeight'', JStr ''2''), (''fontSize'', JNum 16)]"
    by simp
  with getCSSVariables_flattens [of kebabCase "[(''lineHeight'', JStr ''2''), (''fontSize'', JNum 16)]"]
  show ?thesis by blast
qed

lemma getCSSVariables_empty_config: "getCSSVariables kebab (JObj []) = []"
  by (simp add: getCSSVariables_def getNestedCSSVariables_def mapKeys_def)

subsection \<open>\<^verbatim>\<open>getInlineStyles\<close>\<close>

lemma keys_setProp: "fst ` set (setProp ob k v) = insert k (fst ` set ob)"
proof -
  have r: "fst ` set (replaceProp ob k v) = fst ` set ob"
    by (simp only: set_map [symmetric] keys_replaceProp)
  have i: "fst ` set (insertIndex ob k v) = insert k (fst ` set ob)"
    by (simp add: set_insertIndex)
  show ?thesis
    by (auto simp: setProp_def r i hasOwn_iff)
qed

lemma setProp_fresh: "\<not> hasOwn ob k \<Longrightarrow> \<not> isArrayIndex k \<Longrightarrow> setProp ob k v = ob @ [(k, v)]"
  by (simp add: setProp_def)

lemma baseHas_plain_key:
  "key \<noteq> ''length'' \<Longrightarrow> \<not> isArrayIndex key \<Longrightarrow>
     baseHas v key = (case v of JObj kvs \<Rightarrow> map_of kvs key \<noteq> None | _ \<Rightarrow> False)"
  by (cases v) (simp_all add: hasOwn_def)

lemma has_lookupPath:
  assumes "b \<noteq> ''length''" and "\<not> isArrayIndex b"
  shows "has (JObj config) [a, b] = (lookupPath config a b \<noteq> None)"
  by (auto simp: has_def isNullish_def hasOwn_def getProp_def lookupPath_def
        baseHas_plain_key [OF assms] split: option.splits jsval.splits)

lemma get_lookupPath:
  "lookupPath config a b = Some v \<Longrightarrow> get (JObj config) [a, b] = v"
  by (auto simp: get_def isNullish_def getProp_def lookupPath_def split: option.splits jsval.splits)

lemma plain_keys:
  "\<not> isArrayIndex ''lineHeight''" "\<not> isArrayIndex ''backgroundColor''" "\<not> isArrayIndex ''color''"
  "\<not> isArrayIndex ''background''" "\<not> isArrayIndex ''text''" "\<not> isArrayIndex ''style''"
  by (simp_all add: isArrayIndex_def isDigit_def)

lemma getInlineStyles_config:
  "getInlineStyles (JObj config)
     = pick ''lineHeight'' (lookupPath config ''typography'' ''lineHeight'')
       @ pick ''backgroundColor'' (lookupPath config ''color'' ''background'')
       @ pick ''color'' (lookupPath config ''color'' ''text'')"
proof -
  have h: "has (JObj config) [''typography'', ''lineHeight'']
             = (lookupPath config ''typography'' ''lineHeight'' \<noteq> None)"
    "has (JObj config) [''color'', ''background''] = (lookupPath config ''color'' ''background'' \<noteq> None)"
    "has (JObj config) [''color'', ''text''] = (lookupPath config ''color'' ''text'' \<noteq> None)"
    by (simp_all add: has_lookupPath plain_keys)
  show ?thesis
    by (cases "lookupPath config ''typography'' ''lineHeight''";
        cases "lookupPath config ''color'' ''background''";
        cases "lookupPath config ''color'' ''text''")
       (simp_all add: getInlineStyles_def mappings_def h pick_def get_lookupPath
          setProp_fresh hasOwn_def plain_keys)
qed

lemma keys_copy_loop:
  "fst ` set (foldl (\<lambda>output (styleKey, objectKey).
                       if P objectKey then setProp output styleKey (G objectKey) else output)
                out ms)
     \<subseteq> fst ` set out \<union> fst ` set ms"
proof (induction ms arbitrary: out)
  case Nil
  then show ?case by simp
next
  case (Cons m ms)
  obtain styleKey objectKey where m: "m = (styleKey, objectKey)" by (cases m)
  let ?out = "if P objectKey then setProp out styleKey (G objectKey) else out"
  have step: "fst ` set ?out \<subseteq> insert styleKey (fst ` set out)"
    by (simp add: keys_setProp subset_insertI)
  have unfold: "foldl (\<lambda>output (styleKey, objectKey).
                       if P objectKey then setProp output styleKey (G objectKey) else output)
                  out (m # ms)
                = foldl (\<lambda>output (styleKey, objectKey).
                       if P objectKey then setProp output styleKey (G objectKey) else output)
                  ?out ms"
    by (simp add: m)
  have keys: "fst ` set (m # ms) = insert styleKey (fst ` set ms)"
    by (simp add: m)
  from Cons.IH [of ?out] step show ?case
    unfolding unfold keys by blast
qed

lemma getInlineStyles_keys:
  "set (map fst (getInlineStyles styles)) \<subseteq> {''lineHeight'', ''backgroundColor'', ''color''}"
proof -
  have "fst ` set (getInlineStyles styles) \<subseteq> fst ` set ([] :: obj) \<union> fst ` set mappings"
    unfolding getInlineStyles_def Let_def by (rule keys_copy_loop)
  then show ?thesis
    by (simp add: mappings_def)
qed

text \<open>
  Claim C4. For every style configuration, \<^verbatim>\<open>getInlineStyles\<close> returns exactly the entries
  of the three fixed pairs whose source path exists, in the order of the mapping table:
  \<^verbatim>\<open>lineHeight\<close> from \<^verbatim>\<open>typography.lineHeight\<close>, \<^verbatim>\<open>backgroundColor\<close> from
  \<^verbatim>\<open>color.background\<close>, \<^verbatim>\<open>color\<close> from \<^verbatim>\<open>color.text\<close>. A path that is present is copied
  whatever its value (a falsy one too), an absent path contributes no key, so the keys
  are among the three names whatever the argument is. In the examples the input lists
  its keys in another order than the table, and holds the falsy values \<^verbatim>\<open>0\<close> and \<^verbatim>\<open>""\<close>.
\<close>

theorem getInlineStyles_fixed_pairs:
  "getInlineStyles (JObj config)
     = pick ''lineHeight'' (lookupPath config ''typography'' ''lineHeight'')
       @ pick ''backgroundColor'' (lookupPath config ''color'' ''background'')
       @ pick ''color'' (lookupPath config ''color'' ''text'')
   \<and> set (map fst (getInlineStyles styles)) \<subseteq> {''lineHeight'', ''backgroundColor'', ''color''}
   \<and> getInlineStyles
        (JObj [(''color'', JObj [(''text'', JStr ''#fff''), (''background'', JStr ''#000'')]),
               (''typography'', JObj [(''lineHeight'', JStr ''1.4'')])])
       = [(''lineHeight'', JStr ''1.4''), (''backgroundColor'', JStr ''#000''), (''color'', JStr ''#fff'')]
   \<and> getInlineStyles
        (JObj [(''color'', JObj [(''text'', JStr [])]),
               (''typography'', JObj [(''lineHeight'', JNum 0)])])
       = [(''lineHeight'', JNum 0), (''color'', JStr [])]"
proof (intro conjI)
  show "getInlineStyles (JObj config)
     = pick ''lineHeight'' (lookupPath config ''typography'' ''lineHeight'')
       @ pick ''backgroundColor'' (lookupPath config ''color'' ''background'')
       @ pick ''color'' (lookupPath config ''color'' ''text'')"
    by (rule getInlineStyles_config)
  show "set (map fst (getInlineStyles styles)) \<subseteq> {''lineHeight'', ''backgroundColor'', ''color''}"
    by (rule getInlineStyles_keys)
qed (simp_all add: getInlineStyles_config lookupPath_def pick_def)

subsection \<open>When the names of the leaves are unique\<close>

lemma hasDoubleDash_Cons: "hasDoubleDash s \<Longrightarrow> hasDoubleDash (a # s)"
  by (cases s) auto

lemma hasDoubleDash_append: "hasDoubleDash (xs @ CHR ''-'' # CHR ''-'' # ys)"
  by (induction xs) (auto intro: hasDoubleDash_Cons)

lemma dashSafe_no_join: "dashSafe k \<Longrightarrow> k \<noteq> k' @ ''--'' @ r"
  using hasDoubleDash_append [of k' r] by (auto simp: dashSafe_def)

lemma dashSafe_overlap:
  assumes "dashSafe (k @ us)" and "us @ ''--'' @ r1 = ''--'' @ r2"
  shows "us = []"
proof (cases us)
  case Nil
  then show ?thesis .
next
  case (Cons c us')
  with assms(2) have c: "c = CHR ''-''" by simp
  show ?thesis
  proof (cases us')
    case Nil
    with Cons c assms(1) show ?thesis by (simp add: dashSafe_def)
  next
    case (Cons c' us'')
    with \<open>us = c # us'\<close> assms(2) have "c' = CHR ''-''" by simp
    with Cons \<open>us = c # us'\<close> c have "hasDoubleDash (k @ us)"
      by (simp add: hasDoubleDash_append)
    with assms(1) show ?thesis by (simp add: dashSafe_def)
  qed
qed

lemma dashSafe_join_inject:
  assumes "dashSafe k1" and "dashSafe k2" and "k1 @ ''--'' @ r1 = k2 @ ''--'' @ r2"
  shows "k1 = k2"
proof -
  from assms(3) obtain us where
    "(k1 = k2 @ us \<and> us @ ''--'' @ r1 = ''--'' @ r2) \<or> (k1 @ us = k2 \<and> ''--'' @ r1 = us @ ''--'' @ r2)"
    unfolding append_eq_append_conv2 by blast
  then show ?thesis
  proof
    assume a: "k1 = k2 @ us \<and> us @ ''--'' @ r1 = ''--'' @ r2"
    with assms(1) have "us = []" by (auto intro: dashSafe_overlap)
    with a show ?thesis by simp
  next
    assume a: "k1 @ us = k2 \<and> ''--'' @ r1 = us @ ''--'' @ r2"
    then have "dashSafe (k1 @ us)" and "us @ ''--'' @ r2 = ''--'' @ r1"
      using assms(2) by simp_all
    then have "us = []" by (rule dashSafe_overlap)
    with a show ?thesis by simp
  qed
qed

lemma flattenSpec_heads:
  "n \<in> fst ` set (flattenSpec kebab es) \<Longrightarrow>
     \<exists>k \<in> fst ` set es. n = kebab k \<or> (\<exists>r. n = kebab k @ ''--'' @ r)"
proof (induction kebab es rule: flattenSpec.induct)
  case (1 kebab)
  then show ?case by simp
next
  case (2 kebab K "value" rest)
  from "2.prems" consider
      (here) "n \<in> fst ` set (if isObject value
                 then map (\<lambda>(R, V). (kebab K @ ''--'' @ R, V)) (flattenSpec kebab (entries value))
                 else [(kebab K, value)])"
    | (later) "n \<in> fst ` set (flattenSpec kebab rest)"
    by auto
  then show ?case
  proof cases
    case here
    then have "n = kebab K \<or> (\<exists>r. n = kebab K @ ''--'' @ r)"
      by (auto split: if_splits)
    then show ?thesis by auto
  next
    case later
    from "2.IH"(2) [OF later] show ?thesis by auto
  qed
qed

lemma kebabKeysDistinct_names:
  "\<forall>s. dashSafe (kebab s) \<Longrightarrow> kebabKeysDistinct kebab es \<Longrightarrow>
     distinct (map fst (flattenSpec kebab es))"
proof (induction kebab es rule: flattenSpec.induct)
  case (1 kebab)
  then show ?case by simp
next
  case (2 kebab K "value" rest)
  let ?here = "if isObject value
                 then map (\<lambda>(R, V). (kebab K @ ''--'' @ R, V)) (flattenSpec kebab (entries value))
                 else [(kebab K, value)]"
  from "2.prems"(1) have safe: "dashSafe (kebab K)" and safe_all: "\<forall>s. dashSafe (kebab s)"
    by simp_all
  from "2.prems"(2) have notin: "kebab K \<notin> kebab ` fst ` set rest"
    and inner: "isObject value \<Longrightarrow> kebabKeysDistinct kebab (entries value)"
    and rest: "kebabKeysDistinct kebab rest"
    by (simp_all add: image_image)
  from notin have fresh: "\<forall>k' \<in> fst ` set rest. kebab k' \<noteq> kebab K"
    by (metis image_eqI)
  have d_here: "distinct (map fst ?here)"
  proof (cases "isObject value")
    case True
    have "map fst (map (\<lambda>(R, V). (kebab K @ ''--'' @ R, V)) (flattenSpec kebab (entries value)))
            = map (\<lambda>R. kebab K @ ''--'' @ R) (map fst (flattenSpec kebab (entries value)))"
      by (simp add: case_prod_unfold)
    moreover have "distinct (map fst (flattenSpec kebab (entries value)))"
      using "2.IH"(1) [OF True safe_all inner [OF True]] .
    ultimately show ?thesis
      using True by (simp add: distinct_map inj_on_def)
  next
    case False
    then show ?thesis by simp
  qed
  have d_rest: "distinct (map fst (flattenSpec kebab rest))"
    using "2.IH"(2) [OF safe_all rest] .
  have disjoint: "fst ` set ?here \<inter> fst ` set (flattenSpec kebab rest) = {}"
  proof (rule ccontr)
    assume "fst ` set ?here \<inter> fst ` set (flattenSpec kebab rest) \<noteq> {}"
    then obtain n where n1: "n \<in> fst ` set ?here" and n2: "n \<in> fst ` set (flattenSpec kebab rest)"
      by blast
    from n1 have h1: "n = kebab K \<or> (\<exists>r. n = kebab K @ ''--'' @ r)"
      by (auto split: if_splits)
    from flattenSpec_heads [OF n2] obtain k' where k': "k' \<in> fst ` set rest"
      and h2: "n = kebab k' \<or> (\<exists>r. n = kebab k' @ ''--'' @ r)"
      by blast
    from safe_all have safe': "dashSafe (kebab k')"
      by simp
    from fresh k' have ne: "kebab k' \<noteq> kebab K" by blast
    from h1 h2 show False
    proof (elim disjE exE)
      assume "n = kebab K" "n = kebab k'"
      with ne show False by simp
    next
      fix r assume "n = kebab K" "n = kebab k' @ ''--'' @ r"
      with dashSafe_no_join [OF safe, of "kebab k'" r] show False by simp
    next
      fix r assume "n = kebab K @ ''--'' @ r" "n = kebab k'"
      with dashSafe_no_join [OF safe', of "kebab K" r] show False by simp
    next
      fix r r' assume "n = kebab K @ ''--'' @ r" "n = kebab k' @ ''--'' @ r'"
      then have "kebab K @ ''--'' @ r = kebab k' @ ''--'' @ r'" by simp
      from dashSafe_join_inject [OF safe safe' this] ne show False by simp
    qed
  qed
  have "flattenSpec kebab ((K, value) # rest) = ?here @ flattenSpec kebab rest"
    by simp
  with d_here d_rest disjoint show ?case
    by (simp only: map_append distinct_append set_map)
qed

lemma distinct_names_same_entries:
  assumes "distinct (map fst out)" and "distinct (map fst xs)" and "map_of out = map_of (rev xs)"
  shows "set out = set xs" and "length out = length xs"
proof -
  have "map_of out = map_of xs"
    using assms(2,3) by (simp add: map_of_rev_distinct)
  with assms(1,2) show s: "set out = set xs"
    by (simp add: map_of_inject_set)
  from assms(1,2) have "distinct out" "distinct xs"
    by (simp_all add: distinct_map)
  then have "length out = card (set out)" "length xs = card (set xs)"
    by (simp_all add: distinct_card)
  with s show "length out = length xs" by simp
qed

lemma withPrefix_names:
  "distinct (map fst xs) \<Longrightarrow> distinct (map fst (withPrefix xs))"
proof -
  assume "distinct (map fst xs)"
  moreover have "map fst (withPrefix xs) = map (\<lambda>R. ''--wp--'' @ R) (map fst xs)"
    by (simp add: withPrefix_def case_prod_unfold)
  ultimately show ?thesis
    by (simp add: distinct_map inj_on_def)
qed

lemma getCSSVariables_unique_names:
  assumes "distinct (map fst (flattenSpec kebab config))"
  shows "set (getCSSVariables kebab (JObj config)) = set (withPrefix (flattenSpec kebab config))"
    and "length (getCSSVariables kebab (JObj config)) = length (flattenSpec kebab config)"
  using distinct_names_same_entries
          [OF getCSSVariables_distinct withPrefix_names [OF assms] getCSSVariables_refines]
  by (simp_all add: withPrefix_def)


subsection \<open>The kebab-case forms of the model are dash-safe\<close>

lemma takeWhile_length_mono:
  "(\<And>x. P x \<Longrightarrow> Q x) \<Longrightarrow> length (takeWhile P s) \<le> length (takeWhile Q s)"
  by (induction s) auto

lemma alnum_classes: "isLower c \<Longrightarrow> isAlnum c" "isUpper c \<Longrightarrow> isAlnum c" "isDigit c \<Longrightarrow> isAlnum c"
  by (simp_all add: isAlnum_def isLetter_def)

lemma takeWhile_alnum_split:
  assumes "\<And>x. P x \<Longrightarrow> isAlnum x"
  shows "length (takeWhile isAlnum s)
           = length (takeWhile P s) + length (takeWhile isAlnum (dropWhile P s))"
proof -
  have "takeWhile isAlnum (takeWhile P s @ dropWhile P s)
          = takeWhile P s @ takeWhile isAlnum (dropWhile P s)"
    by (rule takeWhile_append2) (auto dest: set_takeWhileD intro: assms)
  then show ?thesis by simp
qed

lemma ord_letters:
  "ordUpper d rest \<or> ordLower d rest \<Longrightarrow> 2 \<le> length (takeWhile isAlnum rest)"
  by (auto simp: ordUpper_def ordLower_def isAlnum_def isLetter_def isUpper_def isLower_def
        split: list.splits)

lemma matchLen_le: "matchLen s \<le> length (takeWhile isAlnum s)"
proof (cases s)
  case Nil
  then show ?thesis by (simp add: matchLen_def)
next
  case (Cons c cs)
  consider (lower) "isLower c" | (upper) "\<not> isLower c" "isUpper c"
    | (digit) "\<not> isLower c" "\<not> isUpper c" "isDigit c"
    | (other) "\<not> isLower c" "\<not> isUpper c" "\<not> isDigit c"
    by blast
  then show ?thesis
  proof cases
    case lower
    then have "matchLen s = length (takeWhile isLower s)"
      by (simp add: matchLen_def Cons)
    then show ?thesis
      by (simp add: takeWhile_length_mono alnum_classes)
  next
    case upper
    let ?n = "length (takeWhile isUpper s)"
    let ?rest = "dropWhile isUpper s"
    have split: "length (takeWhile isAlnum s) = ?n + length (takeWhile isAlnum ?rest)"
      by (rule takeWhile_alnum_split) (rule alnum_classes)
    have "length (takeWhile isLower ?rest) \<le> length (takeWhile isAlnum ?rest)"
      by (simp add: takeWhile_length_mono alnum_classes)
    moreover have "matchLen s = (if ?rest \<noteq> [] \<and> isLower (hd ?rest)
             then (if ?n = 1 then 1 + length (takeWhile isLower ?rest) else ?n - 1)
             else ?n)"
      using upper unfolding matchLen_def Cons by (simp add: Let_def)
    ultimately show ?thesis
      using split by (auto split: if_splits)
  next
    case digit
    let ?ds = "takeWhile isDigit s"
    let ?rest = "dropWhile isDigit s"
    have split: "length (takeWhile isAlnum s) = length ?ds + length (takeWhile isAlnum ?rest)"
      by (rule takeWhile_alnum_split) (rule alnum_classes)
    have "matchLen s = (if ordUpper (last ?ds) ?rest \<or> ordLower (last ?ds) ?rest
             then length ?ds + 2 else length ?ds)"
      using digit unfolding matchLen_def Cons by (simp add: Let_def)
    then show ?thesis
      using split ord_letters [of "last ?ds" ?rest] by (auto split: if_splits)
  next
    case other
    then show ?thesis by (simp add: matchLen_def Cons)
  qed
qed

lemma take_matchLen_alnum: "c \<in> set (take (matchLen s) s) \<Longrightarrow> isAlnum c"
proof -
  assume c: "c \<in> set (take (matchLen s) s)"
  have "take (matchLen s) s = take (matchLen s) (takeWhile isAlnum s)"
    using matchLen_le [of s]
    by (metis takeWhile_eq_take take_take min.absorb1)
  with c have "c \<in> set (takeWhile isAlnum s)"
    by (auto dest: in_set_takeD)
  then show ?thesis by (rule set_takeWhileD [THEN conjunct2])
qed


lemma matchLen_nonempty: "matchLen s \<noteq> 0 \<Longrightarrow> take (matchLen s) s \<noteq> []"
  by (cases s) (simp_all add: matchLen_def)

lemma unicodeWords_alnum:
  "w \<in> set (unicodeWords s) \<Longrightarrow> w \<noteq> [] \<and> (\<forall>c \<in> set w. isAlnum c)"
proof (induction s rule: unicodeWords.induct)
  case (1 s)
  show ?case
  proof (cases "s = []")
    case True
    with "1.prems" show ?thesis by (simp add: unicodeWords.simps)
  next
    case False
    show ?thesis
    proof (cases "matchLen s = 0")
      case True
      with False "1.prems" have "w \<in> set (unicodeWords (tl s))"
        by (simp add: unicodeWords.simps [of s])
      with "1.IH"(1) [OF False True] show ?thesis .
    next
      case nonzero: False
      with False "1.prems" have "w = take (matchLen s) s \<or> w \<in> set (unicodeWords (drop (matchLen s) s))"
        by (simp add: unicodeWords.simps [of s])
      then show ?thesis
      proof
        assume w: "w = take (matchLen s) s"
        have "w \<noteq> []"
          unfolding w using nonzero by (rule matchLen_nonempty)
        moreover have "\<forall>c \<in> set w. isAlnum c"
          unfolding w by (blast dest: take_matchLen_alnum)
        ultimately show ?thesis ..
      next
        assume "w \<in> set (unicodeWords (drop (matchLen s) s))"
        with "1.IH"(2) [OF False nonzero] show ?thesis .
      qed
    qed
  qed
qed

lemma asciiWordsFrom_alnum:
  "\<forall>c \<in> set cur. isAlnum c \<Longrightarrow> w \<in> set (asciiWordsFrom cur s) \<Longrightarrow>
     w \<noteq> [] \<and> (\<forall>c \<in> set w. isAlnum c)"
proof (induction s arbitrary: cur)
  case Nil
  then show ?case by (cases "cur = []") simp_all
next
  case (Cons a s)
  show ?case
  proof (cases "isAlnum a")
    case True
    with Cons.prems have "\<forall>c \<in> set (cur @ [a]). isAlnum c"
      and "w \<in> set (asciiWordsFrom (cur @ [a]) s)"
      by simp_all
    then show ?thesis by (rule Cons.IH)
  next
    case False
    with Cons.prems(2) have "(cur \<noteq> [] \<and> w = cur) \<or> w \<in> set (asciiWordsFrom [] s)"
      by (cases "cur = []") simp_all
    then show ?thesis
    proof
      assume "cur \<noteq> [] \<and> w = cur"
      with Cons.prems(1) show ?thesis by simp
    next
      assume "w \<in> set (asciiWordsFrom [] s)"
      with Cons.IH [of "[]"] show ?thesis by simp
    qed
  qed
qed

lemma words_alnum: "w \<in> set (words s) \<Longrightarrow> w \<noteq> [] \<and> (\<forall>c \<in> set w. isAlnum c)"
  using unicodeWords_alnum [of w s] asciiWordsFrom_alnum [of "[]" w s]
  by (auto simp: words_def asciiWords_def split: if_splits)

lemma alnum_not_dash: "isAlnum c \<Longrightarrow> c \<noteq> CHR ''-''"
  by (auto simp: isAlnum_def isLetter_def isUpper_def isLower_def isDigit_def)

lemma toLower_not_dash: "isAlnum c \<Longrightarrow> toLower c \<noteq> CHR ''-''"
proof (cases "map_of (zip ''ABCDEFGHIJKLMNOPQRSTUVWXYZ'' ''abcdefghijklmnopqrstuvwxyz'') c")
  case None
  then show "isAlnum c \<Longrightarrow> toLower c \<noteq> CHR ''-''"
    by (simp add: toLower_def alnum_not_dash)
next
  case (Some l)
  then have "l \<in> set ''abcdefghijklmnopqrstuvwxyz''"
    by (blast dest: map_of_SomeD set_zip_rightD)
  then have "l \<noteq> CHR ''-''" by auto
  with Some show ?thesis by (simp add: toLower_def)
qed

lemma lower_word_no_dash:
  assumes "\<forall>c \<in> set w. isAlnum c"
  shows "CHR ''-'' \<notin> toLower ` set w"
proof
  assume "CHR ''-'' \<in> toLower ` set w"
  then obtain c where "c \<in> set w" and "CHR ''-'' = toLower c"
    by auto
  with assms toLower_not_dash [of c] show False
    by simp
qed

lemma no_dash_no_double: "CHR ''-'' \<notin> set w \<Longrightarrow> \<not> hasDoubleDash w"
  by (induction w rule: hasDoubleDash.induct) auto

lemma hasDoubleDash_append_iff:
  "hasDoubleDash (xs @ ys) \<longleftrightarrow>
     hasDoubleDash xs \<or> hasDoubleDash ys
     \<or> (xs \<noteq> [] \<and> ys \<noteq> [] \<and> last xs = CHR ''-'' \<and> hd ys = CHR ''-'')"
proof (induction xs rule: hasDoubleDash.induct)
  case (1 a b s)
  then show ?case by auto
qed (simp, cases ys, auto)

lemma dashSafe_join_step:
  assumes "dashSafe acc" and "acc \<noteq> []" and "w \<noteq> []" and "CHR ''-'' \<notin> set w"
  shows "dashSafe (acc @ ''-'' @ w)"
proof -
  from assms(3,4) have "hd w \<noteq> CHR ''-''" "last w \<noteq> CHR ''-''"
    by (metis hd_in_set, metis last_in_set)
  moreover from assms(4) have "\<not> hasDoubleDash w"
    by (rule no_dash_no_double)
  ultimately have "\<not> hasDoubleDash (CHR ''-'' # w)" using assms(3)
    by (cases w) auto
  with assms(1,2) have "\<not> hasDoubleDash (acc @ CHR ''-'' # w)"
    by (auto simp: hasDoubleDash_append_iff dashSafe_def)
  with assms(3) \<open>last w \<noteq> CHR ''-''\<close> show ?thesis
    by (simp add: dashSafe_def)
qed

lemma dashSafe_join:
  assumes "dashSafe acc" and "acc \<noteq> []" and "\<forall>w \<in> set ws. w \<noteq> [] \<and> (\<forall>c \<in> set w. isAlnum c)"
  shows "dashSafe (foldl (\<lambda>result word. result @ ''-'' @ map toLower word) acc ws)"
  using assms
proof (induction ws arbitrary: acc)
  case Nil
  then show ?case by simp
next
  case (Cons w ws)
  from Cons.prems(3) have w: "map toLower w \<noteq> []" "CHR ''-'' \<notin> set (map toLower w)"
    by (simp_all add: lower_word_no_dash)
  have "dashSafe (acc @ ''-'' @ map toLower w)"
    using Cons.prems(1,2) w by (rule dashSafe_join_step)
  moreover have "acc @ ''-'' @ map toLower w \<noteq> []" by simp
  ultimately show ?case
    using Cons.IH Cons.prems(3) by simp
qed

lemma dashSafe_kebabCase: "dashSafe (kebabCase s)"
proof (cases "words (filter (\<lambda>c. c \<noteq> CHR 0x27) s)")
  case Nil
  then show ?thesis by (simp add: kebabCase_def dashSafe_def)
next
  case (Cons w ws)
  have all: "\<forall>w' \<in> set (w # ws). w' \<noteq> [] \<and> (\<forall>c \<in> set w'. isAlnum c)"
  proof
    fix w' assume "w' \<in> set (w # ws)"
    then have "w' \<in> set (words (filter (\<lambda>c. c \<noteq> CHR 0x27) s))"
      by (simp only: Cons)
    then show "w' \<noteq> [] \<and> (\<forall>c \<in> set w'. isAlnum c)"
      by (rule words_alnum)
  qed
  then have first: "map toLower w \<noteq> []" "CHR ''-'' \<notin> set (map toLower w)"
    by (simp_all add: lower_word_no_dash)
  then have "last (map toLower w) \<noteq> CHR ''-''"
    by (metis last_in_set)
  with first have start: "dashSafe (map toLower w)"
    by (simp add: dashSafe_def no_dash_no_double)
  from all have rest: "\<forall>w' \<in> set ws. w' \<noteq> [] \<and> (\<forall>c \<in> set w'. isAlnum c)"
    by simp
  from start first(1) rest
  have "dashSafe (foldl (\<lambda>result word. result @ ''-'' @ map toLower word) (map toLower w) ws)"
    by (rule dashSafe_join)
  with Cons show ?thesis by (simp add: kebabCase_def)
qed

text \<open>
  Claim C7, as amended. When at every nesting level the kebab-cased keys of the
  configuration are pairwise distinct, the names of the leaves are pairwise distinct:
  \<^verbatim>\<open>getCSSVariables\<close> returns one variable for every leaf, with the value of that leaf,
  and no assignment overrides another. The case conversion is any function whose results
  contain no \<open>--\<close> and do not end in a dash; \<open>kebabCase\<close> is one (\<open>dashSafe_kebabCase\<close>).
\<close>

theorem flattened_names_unique:
  assumes "\<forall>s. dashSafe (kebab s)" and "kebabKeysDistinct kebab config"
  shows "distinct (map fst (flattenSpec kebab config))
     \<and> distinct (map fst (getCSSVariables kebab (JObj config)))
     \<and> set (getCSSVariables kebab (JObj config)) = set (withPrefix (flattenSpec kebab config))
     \<and> length (getCSSVariables kebab (JObj config)) = length (flattenSpec kebab config)"
proof -
  from assms have names: "distinct (map fst (flattenSpec kebab config))"
    by (rule kebabKeysDistinct_names)
  from names getCSSVariables_distinct getCSSVariables_unique_names [OF names]
  show ?thesis by blast
qed

theorem flattened_names_unique_witness:
  "(\<forall>s. dashSafe (kebabCase s))
   \<and> kebabKeysDistinct kebabCase
     [(''typography'', JObj [(''lineHeight'', JStr ''2''), (''fontSize'', JNum 16)]),
      (''color'', JObj [(''text'', JStr ''#000'')])]
   \<and> length (getCSSVariables kebabCase
        (JObj [(''typography'', JObj [(''lineHeight'', JStr ''2''), (''fontSize'', JNum 16)]),
               (''color'', JObj [(''text'', JStr ''#000'')])]))
       = length (flattenSpec kebabCase
        [(''typography'', JObj [(''lineHeight'', JStr ''2''), (''fontSize'', JNum 16)]),
         (''color'', JObj [(''text'', JStr ''#000'')])])"
proof -
  have safe: "\<forall>s. dashSafe (kebabCase s)"
    by (simp add: dashSafe_kebabCase)
  have h: "kebabKeysDistinct kebabCase
     [(''typography'', JObj [(''lineHeight'', JStr ''2''), (''fontSize'', JNum 16)]),
      (''color'', JObj [(''text'', JStr ''#000'')])]"
    by code_simp
  from flattened_names_unique [OF safe h] safe h show ?thesis by blast
qed

text \<open>
  The claim as stated fails: the keys \<^verbatim>\<open>lineHeight\<close> and \<^verbatim>\<open>line-height\<close> are distinct, both
  leaves are emitted under the name \<^verbatim>\<open>line-height\<close>, and the result holds one variable,
  with the value that was written last.
\<close>

theorem flattened_names_collide:
  "keysDistinct [(''lineHeight'', JStr ''1''), (''line-height'', JStr ''2'')]
   \<and> flattenSpec kebabCase [(''lineHeight'', JStr ''1''), (''line-height'', JStr ''2'')]
       = [(''line-height'', JStr ''1''), (''line-height'', JStr ''2'')]
   \<and> getCSSVariables kebabCase (JObj [(''lineHeight'', JStr ''1''), (''line-height'', JStr ''2'')])
       = [(''--wp--line-height'', JStr ''2'')]"
  by code_simp

subsection \<open>Leaf values\<close>






subsection \<open>\<^verbatim>\<open>addAttribute\<close>\<close>

lemma hasStyleSupport_attributes_update [simp]:
  "hasStyleSupport (settings\<lparr>attributes := a\<rparr>) = hasStyleSupport settings"
  by (simp add: hasStyleSupport_def hasBlockSupport_def)





subsection \<open>\<^verbatim>\<open>addSaveProps\<close>\<close>

lemma addSaveProps_unsupported:
  "\<not> hasStyleSupport blockType \<Longrightarrow> addSaveProps kebab window h props blockType attrs = Inr (h, props)"
  by (simp add: addSaveProps_def)

lemma addSaveProps_supported:
  "hasStyleSupport blockType \<Longrightarrow> \<not> isNullish attrs \<Longrightarrow>
     addSaveProps kebab window h props blockType attrs
       = Inr (h\<lparr>cells := (cells h)(props :=
                 setProp (cells h props) ''style''
                   (JObj (spread2 (JObj (computedStyle kebab window attrs)) (styleOf h props))))\<rparr>,
              props)"
  by (simp add: addSaveProps_def computedStyle_def styleOf_def Let_def)

lemma addSaveProps_nullish:
  "hasStyleSupport blockType \<Longrightarrow> isNullish attrs \<Longrightarrow>
     addSaveProps kebab window h props blockType attrs = Inl TypeError"
  by (simp add: addSaveProps_def)

lemma otherProps_replaceProp: "otherProps (replaceProp ob ''style'' v) = otherProps ob"
  by (induction ob) (auto simp: otherProps_def)

lemma otherProps_setProp: "otherProps (setProp ob ''style'' v) = otherProps ob"
  by (simp add: setProp_def otherProps_replaceProp plain_keys) (simp add: otherProps_def)

lemma map_of_otherProps: "k \<noteq> ''style'' \<Longrightarrow> map_of (otherProps ob) k = map_of ob k"
  by (induction ob) (auto simp: otherProps_def)

lemma distinct_copy_loop:
  "distinct (map fst out) \<Longrightarrow>
     distinct (map fst (foldl (\<lambda>output (styleKey, objectKey).
                                 if P objectKey then setProp output styleKey (G objectKey) else output)
                          out ms))"
proof (induction ms arbitrary: out)
  case Nil
  then show ?case by simp
next
  case (Cons m ms)
  obtain styleKey objectKey where m: "m = (styleKey, objectKey)" by (cases m)
  let ?out = "if P objectKey then setProp out styleKey (G objectKey) else out"
  have "distinct (map fst ?out)"
    using Cons.prems by (simp add: distinct_setProp)
  from Cons.IH [OF this] show ?case
    by (simp add: m)
qed

lemma getInlineStyles_distinct: "distinct (map fst (getInlineStyles styles))"
  unfolding getInlineStyles_def Let_def by (rule distinct_copy_loop) simp

lemma computedStyle_distinct: "distinct (map fst (computedStyle kebab window attrs))"
  by (simp add: computedStyle_def getCSSVariables_distinct getInlineStyles_distinct)

lemma map_of_merged_style:
  assumes "distinct (map fst (entries existing))"
  shows "map_of (spread2 (JObj (computedStyle kebab window attrs)) existing) k
           = (case map_of (entries existing) k of
                Some v \<Rightarrow> Some v
              | None \<Rightarrow> map_of (computedStyle kebab window attrs) k)"
  by (simp add: map_of_spread2 map_of_rev_distinct assms computedStyle_distinct map_add_def)

text \<open>
  Claim C10. \<^verbatim>\<open>addSaveProps\<close> returns the reference it was given. For a block type
  without style support the store is unchanged. In every case no other object of the
  store changes, and in the prop bag every property other than \<^verbatim>\<open>style\<close> keeps its value
  and its place. With style support (and attributes that are an object) the call
  succeeds and \<^verbatim>\<open>style\<close> is an own property holding an object, whether or not the
  attributes carry a style.
\<close>

theorem addSaveProps_frame:
  "(\<not> hasStyleSupport blockType \<longrightarrow>
      addSaveProps kebab window h props blockType attrs = Inr (h, props))
   \<and> (addSaveProps kebab window h props blockType attrs = Inr (h', props') \<longrightarrow>
        props' = props \<and> next_ref h' = next_ref h
        \<and> (\<forall>q. q \<noteq> props \<longrightarrow> cells h' q = cells h q)
        \<and> otherProps (cells h' props) = otherProps (cells h props))
   \<and> (hasStyleSupport blockType \<and> \<not> isNullish attrs \<longrightarrow>
        (\<exists>h1 merged. addSaveProps kebab window h props blockType attrs = Inr (h1, props)
           \<and> map_of (cells h1 props) ''style'' = Some (JObj merged)))"
proof -
  have unsupported: "\<not> hasStyleSupport blockType \<longrightarrow>
      addSaveProps kebab window h props blockType attrs = Inr (h, props)"
    by (simp add: addSaveProps_unsupported)
  have frame: "addSaveProps kebab window h props blockType attrs = Inr (h', props') \<longrightarrow>
        props' = props \<and> next_ref h' = next_ref h
        \<and> (\<forall>q. q \<noteq> props \<longrightarrow> cells h' q = cells h q)
        \<and> otherProps (cells h' props) = otherProps (cells h props)"
  proof
    assume r: "addSaveProps kebab window h props blockType attrs = Inr (h', props')"
    show "props' = props \<and> next_ref h' = next_ref h
        \<and> (\<forall>q. q \<noteq> props \<longrightarrow> cells h' q = cells h q)
        \<and> otherProps (cells h' props) = otherProps (cells h props)"
    proof (cases "hasStyleSupport blockType")
      case False
      with r show ?thesis by (simp add: addSaveProps_unsupported)
    next
      case True
      with r have ok: "\<not> isNullish attrs"
        by (auto simp: addSaveProps_nullish)
      from r show ?thesis
        unfolding addSaveProps_supported [OF True ok]
        by (auto simp: otherProps_setProp)
    qed
  qed
  have defined: "hasStyleSupport blockType \<and> \<not> isNullish attrs \<longrightarrow>
        (\<exists>h1 merged. addSaveProps kebab window h props blockType attrs = Inr (h1, props)
           \<and> map_of (cells h1 props) ''style'' = Some (JObj merged))"
    by (simp add: addSaveProps_supported map_of_setProp)
  show ?thesis
    by (intro conjI) (rule unsupported, rule frame, rule defined)
qed


theorem addSaveProps_frame_witness:
  "\<not> hasStyleSupport \<lparr>supports = [OtherFeature ''align''], attributes = [], getEditWrapperProps = None\<rparr>
   \<and> addSaveProps kebabCase (JObj [])
        \<lparr>cells = (\<lambda>r. [])(0 := [(''className'', JStr ''wp-block'')]), next_ref = 1\<rparr> 0
        \<lparr>supports = [OtherFeature ''align''], attributes = [], getEditWrapperProps = None\<rparr>
        (JObj [])
       = Inr (\<lparr>cells = (\<lambda>r. [])(0 := [(''className'', JStr ''wp-block'')]), next_ref = 1\<rparr>, 0)
   \<and> hasStyleSupport \<lparr>supports = [COLOR_SUPPORT_KEY], attributes = [], getEditWrapperProps = None\<rparr>
   \<and> \<not> isNullish (JObj [])
   \<and> (\<exists>h1 merged.
         addSaveProps kebabCase (JObj [])
           \<lparr>cells = (\<lambda>r. [])(0 := [(''className'', JStr ''wp-block'')]), next_ref = 1\<rparr> 0
           \<lparr>supports = [COLOR_SUPPORT_KEY], attributes = [], getEditWrapperProps = None\<rparr>
           (JObj [])
          = Inr (h1, 0)
         \<and> map_of (cells h1 0) ''style'' = Some (JObj merged)
         \<and> next_ref h1 = 1
         \<and> otherProps (cells h1 0) = [(''className'', JStr ''wp-block'')])"
proof -
  let ?h = "\<lparr>cells = (\<lambda>r. [])(0 := [(''className'', JStr ''wp-block'')]), next_ref = 1\<rparr>"
  let ?plain = "\<lparr>supports = [OtherFeature ''align''], attributes = [], getEditWrapperProps = None\<rparr>"
  let ?styled = "\<lparr>supports = [COLOR_SUPPORT_KEY], attributes = [], getEditWrapperProps = None\<rparr>"
  have plain: "\<not> hasStyleSupport ?plain"
    by (simp add: hasStyleSupport_def hasBlockSupport_def styleSupportKeys_def)
  have styled: "hasStyleSupport ?styled"
    by (simp add: hasStyleSupport_def hasBlockSupport_def styleSupportKeys_def)
  have attrs: "\<not> isNullish (JObj [])"
    by (simp add: isNullish_def)
  from addSaveProps_frame [where blockType = ?plain and kebab = kebabCase and window = "JObj []"
         and h = ?h and props = 0 and attrs = "JObj []"] plain
  have unchanged: "addSaveProps kebabCase (JObj []) ?h 0 ?plain (JObj []) = Inr (?h, 0)"
    by blast
  from addSaveProps_frame [where blockType = ?styled and kebab = kebabCase and window = "JObj []"
         and h = ?h and props = 0 and attrs = "JObj []"] styled attrs
  obtain h1 merged where
    r: "addSaveProps kebabCase (JObj []) ?h 0 ?styled (JObj []) = Inr (h1, 0)"
    and s: "map_of (cells h1 0) ''style'' = Some (JObj merged)"
    by blast
  from addSaveProps_frame [where blockType = ?styled and kebab = kebabCase and window = "JObj []"
         and h = ?h and props = 0 and attrs = "JObj []" and h' = h1 and props' = 0] r
  have "next_ref h1 = next_ref ?h" and "otherProps (cells h1 0) = otherProps (cells ?h 0)"
    by blast+
  then have "next_ref h1 = 1" and "otherProps (cells h1 0) = [(''className'', JStr ''wp-block'')]"
    by (simp_all add: otherProps_def)
  with plain unchanged styled attrs r s show ?thesis
    by blast
qed

text \<open>
  Claim C2. For a block type with style support and attributes that are an object,
  \<^verbatim>\<open>addSaveProps\<close> sets the \<^verbatim>\<open>style\<close> of the prop bag to the spread of the computed values
  followed by the style the bag had: under every key an entry of the bag's old style
  wins, and a computed entry shows only where the old style has none. For the bag
  \<^verbatim>\<open>{ style: { color: "red" } }\<close> and the computed inline styles
  \<^verbatim>\<open>{ lineHeight: "1.2", color: "blue" }\<close> the new style holds \<^verbatim>\<open>color: "red"\<close> and
  \<^verbatim>\<open>lineHeight: "1.2"\<close>.
\<close>

theorem addSaveProps_existing_style_wins:
  assumes "hasStyleSupport blockType" and "\<not> isNullish attrs"
    and "distinct (map fst (entries (styleOf h props)))"
  shows "\<exists>h' merged.
           addSaveProps kebab window h props blockType attrs = Inr (h', props)
           \<and> styleOf h' props = JObj merged
           \<and> merged = spread2 (JObj (computedStyle kebab window attrs)) (styleOf h props)
           \<and> (\<forall>k. map_of merged k
                    = (case map_of (entries (styleOf h props)) k of
                         Some v \<Rightarrow> Some v
                       | None \<Rightarrow> map_of (computedStyle kebab window attrs) k))"
  using assms(1,2) map_of_merged_style [OF assms(3)]
  by (simp add: addSaveProps_supported styleOf_def getProp_setProp)

theorem addSaveProps_existing_style_wins_witness:
  "hasStyleSupport \<lparr>supports = [COLOR_SUPPORT_KEY], attributes = [], getEditWrapperProps = None\<rparr>
   \<and> computedStyle kebabCase (JObj [])
        (JObj [(''style'', JObj [(''color'', JObj [(''text'', JStr ''blue'')]),
                                 (''typography'', JObj [(''lineHeight'', JStr ''1.2'')])])])
       = [(''lineHeight'', JStr ''1.2''), (''color'', JStr ''blue'')]
   \<and> (\<exists>h'. addSaveProps kebabCase (JObj [])
               \<lparr>cells = (\<lambda>r. [])(0 := [(''style'', JObj [(''color'', JStr ''red'')])]), next_ref = 1\<rparr> 0
               \<lparr>supports = [COLOR_SUPPORT_KEY], attributes = [], getEditWrapperProps = None\<rparr>
               (JObj [(''style'', JObj [(''color'', JObj [(''text'', JStr ''blue'')]),
                                        (''typography'', JObj [(''lineHeight'', JStr ''1.2'')])])])
              = Inr (h', 0)
            \<and> styleOf h' 0 = JObj [(''lineHeight'', JStr ''1.2''), (''color'', JStr ''red'')])"
proof -
  let ?h = "\<lparr>cells = (\<lambda>r. [])(0 := [(''style'', JObj [(''color'', JStr ''red'')])]), next_ref = 1\<rparr>"
  let ?bt = "\<lparr>supports = [COLOR_SUPPORT_KEY], attributes = [], getEditWrapperProps = None\<rparr>"
  let ?attrs = "JObj [(''style'', JObj [(''color'', JObj [(''text'', JStr ''blue'')]),
                                 (''typography'', JObj [(''lineHeight'', JStr ''1.2'')])])]"
  have styled: "hasStyleSupport ?bt"
    by (simp add: hasStyleSupport_def hasBlockSupport_def styleSupportKeys_def)
  have attrs: "\<not> isNullish ?attrs"
    by (simp add: isNullish_def)
  have old: "styleOf ?h 0 = JObj [(''color'', JStr ''red'')]"
    by (simp add: styleOf_def getProp_def)
  have wf: "distinct (map fst (entries (styleOf ?h 0)))"
    by (simp add: styleOf_def getProp_def)
  have computed: "computedStyle kebabCase (JObj []) ?attrs
                    = [(''lineHeight'', JStr ''1.2''), (''color'', JStr ''blue'')]"
    by code_simp
  have merged: "spread2 (JObj [(''lineHeight'', JStr ''1.2''), (''color'', JStr ''blue'')])
                  (JObj [(''color'', JStr ''red'')])
                  = [(''lineHeight'', JStr ''1.2''), (''color'', JStr ''red'')]"
    by code_simp
  from addSaveProps_existing_style_wins [OF styled attrs wf, of kebabCase "JObj []"]
  obtain h' where "addSaveProps kebabCase (JObj []) ?h 0 ?bt ?attrs = Inr (h', 0)"
    and "styleOf h' 0 = JObj (spread2 (JObj (computedStyle kebabCase (JObj []) ?attrs)) (styleOf ?h 0))"
    by blast
  then have "addSaveProps kebabCase (JObj []) ?h 0 ?bt ?attrs = Inr (h', 0)
             \<and> styleOf h' 0 = JObj [(''lineHeight'', JStr ''1.2''), (''color'', JStr ''red'')]"
    by (simp only: computed old merged)
  with styled computed show ?thesis
    by blast
qed


text \<open>
  Claim C6. The flag is read by every call of \<^verbatim>\<open>addSaveProps\<close>: with the same store, prop
  bag, block type (with style support) and attributes, a call under a \<^verbatim>\<open>window\<close> whose
  flag is truthy merges the flattened variables of the style attribute, a call under a
  \<^verbatim>\<open>window\<close> whose flag is falsy merges its inline style properties. The same holds for
  a second call that follows the first on the store the first one left: nothing of the
  first call decides the shape the second one computes.
\<close>

theorem addSaveProps_reads_flag_each_call:
  assumes "hasStyleSupport blockType" and "\<not> isNullish attrs"
    and "truthy (hasGlobalStylesSupport windowOn)" and "\<not> truthy (hasGlobalStylesSupport windowOff)"
  shows "addSaveProps kebab windowOn h props blockType attrs
           = Inr (h\<lparr>cells := (cells h)(props :=
                     setProp (cells h props) ''style''
                       (JObj (spread2 (JObj (getCSSVariables kebab (readMember attrs ''style'')))
                                (styleOf h props))))\<rparr>, props)
         \<and> addSaveProps kebab windowOff h props blockType attrs
           = Inr (h\<lparr>cells := (cells h)(props :=
                     setProp (cells h props) ''style''
                       (JObj (spread2 (JObj (getInlineStyles (readMember attrs ''style'')))
                                (styleOf h props))))\<rparr>, props)
         \<and> (\<forall>h1. addSaveProps kebab windowOn h props blockType attrs = Inr (h1, props) \<longrightarrow>
               addSaveProps kebab windowOff h1 props blockType attrs
                 = Inr (h1\<lparr>cells := (cells h1)(props :=
                           setProp (cells h1 props) ''style''
                             (JObj (spread2 (JObj (getInlineStyles (readMember attrs ''style'')))
                                      (styleOf h1 props))))\<rparr>, props))"
  using assms by (simp add: addSaveProps_supported computedStyle_def)

theorem addSaveProps_reads_flag_each_call_witness:
  "hasStyleSupport \<lparr>supports = [COLOR_SUPPORT_KEY], attributes = [], getEditWrapperProps = None\<rparr>
   \<and> truthy (hasGlobalStylesSupport (JObj [(''__unstableSupportsGlobalStyles'', JBool True)]))
   \<and> \<not> truthy (hasGlobalStylesSupport (JObj [(''__unstableSupportsGlobalStyles'', JBool False)]))
   \<and> (\<exists>h1 h2.
         addSaveProps kebabCase (JObj [(''__unstableSupportsGlobalStyles'', JBool True)])
           \<lparr>cells = (\<lambda>r. []), next_ref = 1\<rparr> 0
           \<lparr>supports = [COLOR_SUPPORT_KEY], attributes = [], getEditWrapperProps = None\<rparr>
           (JObj [(''style'', JObj [(''color'', JObj [(''text'', JStr ''blue'')])])])
          = Inr (h1, 0)
         \<and> styleOf h1 0 = JObj [(''--wp--color--text'', JStr ''blue'')]
         \<and> addSaveProps kebabCase (JObj [(''__unstableSupportsGlobalStyles'', JBool False)])
           \<lparr>cells = (\<lambda>r. []), next_ref = 1\<rparr> 0
           \<lparr>supports = [COLOR_SUPPORT_KEY], attributes = [], getEditWrapperProps = None\<rparr>
           (JObj [(''style'', JObj [(''color'', JObj [(''text'', JStr ''blue'')])])])
          = Inr (h2, 0)
         \<and> styleOf h2 0 = JObj [(''color'', JStr ''blue'')])"
proof -
  let ?on = "JObj [(''__unstableSupportsGlobalStyles'', JBool True)]"
  let ?off = "JObj [(''__unstableSupportsGlobalStyles'', JBool False)]"
  let ?h = "\<lparr>cells = (\<lambda>r. []), next_ref = 1\<rparr>"
  let ?bt = "\<lparr>supports = [COLOR_SUPPORT_KEY], attributes = [], getEditWrapperProps = None\<rparr>"
  let ?attrs = "JObj [(''style'', JObj [(''color'', JObj [(''text'', JStr ''blue'')])])]"
  have styled: "hasStyleSupport ?bt"
    by (simp add: hasStyleSupport_def hasBlockSupport_def styleSupportKeys_def)
  have attrs: "\<not> isNullish ?attrs"
    by (simp add: isNullish_def)
  have on: "truthy (hasGlobalStylesSupport ?on)"
    by (simp add: hasGlobalStylesSupport_def getProp_def)
  have off: "\<not> truthy (hasGlobalStylesSupport ?off)"
    by (simp add: hasGlobalStylesSupport_def getProp_def)
  have variables: "spread2 (JObj (getCSSVariables kebabCase (readMember ?attrs ''style''))) (styleOf ?h 0)
                     = [(''--wp--color--text'', JStr ''blue'')]"
    by code_simp
  have inline: "spread2 (JObj (getInlineStyles (readMember ?attrs ''style''))) (styleOf ?h 0)
                  = [(''color'', JStr ''blue'')]"
    by code_simp
  note both = addSaveProps_reads_flag_each_call [OF styled attrs on off, of kebabCase ?h 0]
  from both obtain h1 where
    r1: "addSaveProps kebabCase ?on ?h 0 ?bt ?attrs = Inr (h1, 0)"
    and s1: "styleOf h1 0
               = JObj (spread2 (JObj (getCSSVariables kebabCase (readMember ?attrs ''style''))) (styleOf ?h 0))"
    by (simp add: styleOf_def getProp_setProp)
  from both obtain h2 where
    r2: "addSaveProps kebabCase ?off ?h 0 ?bt ?attrs = Inr (h2, 0)"
    and s2: "styleOf h2 0
               = JObj (spread2 (JObj (getInlineStyles (readMember ?attrs ''style''))) (styleOf ?h 0))"
    by (simp add: styleOf_def getProp_setProp)
  from s1 s2 have "styleOf h1 0 = JObj [(''--wp--color--text'', JStr ''blue'')]"
    and "styleOf h2 0 = JObj [(''color'', JStr ''blue'')]"
    by (simp_all only: variables inline)
  with styled on off r1 r2 show ?thesis
    by blast
qed

subsection \<open>\<^verbatim>\<open>addEditProps\<close>\<close>

lemma hasStyleSupport_addEditProps [simp]:
  "hasStyleSupport (addEditProps kebab settings) = hasStyleSupport settings"
  by (simp add: addEditProps_def hasStyleSupport_def hasBlockSupport_def Let_def)

lemma callEditWrapper_addEditProps:
  "hasStyleSupport settings \<Longrightarrow>
     callEditWrapper (addEditProps kebab settings) window h attrs
       = (case (case getEditWrapperProps settings of
                  None \<Rightarrow> Inr (newObject h)
                | Some prior \<Rightarrow> prior window (fst (newObject h)) attrs) of
            Inl e \<Rightarrow> Inl e
          | Inr (h1, props) \<Rightarrow> addSaveProps kebab window h1 props settings attrs)"
  by (simp add: callEditWrapper_def addEditProps_def Let_def case_prod_unfold
        split: option.splits sum.splits)

lemma getInlineStyles_empty: "getInlineStyles (JObj []) = []" "getInlineStyles JUndefined = []"
  by (simp_all add: getInlineStyles_def mappings_def has_def hasOwn_def isNullish_def)

lemma getCSSVariables_undefined: "getCSSVariables kebab JUndefined = []"
  by (simp add: getCSSVariables_def getNestedCSSVariables_def mapKeys_def)

text \<open>
  Claim C9. Missing optional inputs are defaults, not failures. An \<^verbatim>\<open>undefined\<close> style
  argument is the empty configuration for \<^verbatim>\<open>getCSSVariables\<close> and for
  \<^verbatim>\<open>getInlineStyles\<close>. \<^verbatim>\<open>addSaveProps\<close> returns normally whenever the attributes are an
  object; when they carry no \<^verbatim>\<open>style\<close> the computed values are empty and the style of
  the bag becomes a copy of what it was. The wrapper that \<^verbatim>\<open>addEditProps\<close> installs on a
  block type without a prior callback runs \<^verbatim>\<open>addSaveProps\<close> on a new empty bag and
  returns normally.
\<close>

theorem missing_inputs_default:
  "getCSSVariables kebab JUndefined = getCSSVariables kebab (JObj [])
   \<and> getCSSVariables kebab JUndefined = []
   \<and> getInlineStyles JUndefined = getInlineStyles (JObj [])
   \<and> getInlineStyles JUndefined = []
   \<and> (\<not> isNullish attrs \<longrightarrow>
        (\<exists>h'. addSaveProps kebab window h props blockType attrs = Inr (h', props)))
   \<and> (hasStyleSupport blockType \<and> \<not> hasOwn akvs ''style'' \<longrightarrow>
        addSaveProps kebab window h props blockType (JObj akvs)
          = Inr (h\<lparr>cells := (cells h)(props :=
                    setProp (cells h props) ''style''
                      (JObj (spread2 (JObj []) (styleOf h props))))\<rparr>, props))
   \<and> (hasStyleSupport settings \<and> getEditWrapperProps settings = None \<and> \<not> isNullish attrs \<longrightarrow>
        callEditWrapper (addEditProps kebab settings) window h attrs
          = addSaveProps kebab window (fst (newObject h)) (next_ref h) settings attrs
        \<and> cells (fst (newObject h)) (next_ref h) = []
        \<and> (\<exists>h'. callEditWrapper (addEditProps kebab settings) window h attrs = Inr (h', next_ref h)))"
proof -
  have total: "\<not> isNullish attrs \<longrightarrow>
        (\<exists>h'. addSaveProps kebab window h props blockType attrs = Inr (h', props))"
    by (cases "hasStyleSupport blockType")
       (simp_all add: addSaveProps_supported addSaveProps_unsupported)
  have no_style: "hasStyleSupport blockType \<and> \<not> hasOwn akvs ''style'' \<longrightarrow>
        addSaveProps kebab window h props blockType (JObj akvs)
          = Inr (h\<lparr>cells := (cells h)(props :=
                    setProp (cells h props) ''style''
                      (JObj (spread2 (JObj []) (styleOf h props))))\<rparr>, props)"
    by (simp add: addSaveProps_supported isNullish_def computedStyle_def getProp_def hasOwn_def
          getCSSVariables_undefined getInlineStyles_empty)
  have wrapper: "hasStyleSupport settings \<and> getEditWrapperProps settings = None \<and> \<not> isNullish attrs \<longrightarrow>
        callEditWrapper (addEditProps kebab settings) window h attrs
          = addSaveProps kebab window (fst (newObject h)) (next_ref h) settings attrs
        \<and> cells (fst (newObject h)) (next_ref h) = []
        \<and> (\<exists>h'. callEditWrapper (addEditProps kebab settings) window h attrs = Inr (h', next_ref h))"
    by (simp add: callEditWrapper_addEditProps newObject_def addSaveProps_supported)
  have variables: "getCSSVariables kebab JUndefined = getCSSVariables kebab (JObj [])"
    by (simp add: getCSSVariables_undefined getCSSVariables_empty_config)
  have inline: "getInlineStyles JUndefined = getInlineStyles (JObj [])"
    by (simp add: getInlineStyles_empty)
  show ?thesis
    by (intro conjI)
       (rule variables, rule getCSSVariables_undefined, rule inline, rule getInlineStyles_empty(2),
        rule total, rule no_style, rule wrapper)
qed


theorem missing_inputs_default_witness:
  "\<not> isNullish (JObj [(''content'', JStr ''hi'')])
   \<and> hasStyleSupport \<lparr>supports = [COLOR_SUPPORT_KEY], attributes = [], getEditWrapperProps = None\<rparr>
   \<and> \<not> hasOwn [(''content'', JStr ''hi'')] ''style''
   \<and> (\<exists>h'. addSaveProps kebabCase (JObj []) \<lparr>cells = (\<lambda>r. []), next_ref = 1\<rparr> 0
              \<lparr>supports = [COLOR_SUPPORT_KEY], attributes = [], getEditWrapperProps = None\<rparr>
              (JObj [(''content'', JStr ''hi'')])
             = Inr (h', 0)
           \<and> cells h' 0 = [(''style'', JObj [])])
   \<and> (\<exists>h'. callEditWrapper
              (addEditProps kebabCase
                 \<lparr>supports = [COLOR_SUPPORT_KEY], attributes = [], getEditWrapperProps = None\<rparr>)
              (JObj []) \<lparr>cells = (\<lambda>r. []), next_ref = 1\<rparr> (JObj [(''content'', JStr ''hi'')])
             = Inr (h', 1))"
proof -
  let ?attrs = "JObj [(''content'', JStr ''hi'')]"
  let ?bt = "\<lparr>supports = [COLOR_SUPPORT_KEY], attributes = [], getEditWrapperProps = None\<rparr>"
  let ?h = "\<lparr>cells = (\<lambda>r. []), next_ref = 1\<rparr>"
  have attrs: "\<not> isNullish ?attrs"
    by (simp add: isNullish_def)
  have styled: "hasStyleSupport ?bt"
    by (simp add: hasStyleSupport_def hasBlockSupport_def styleSupportKeys_def)
  have no_style: "\<not> hasOwn [(''content'', JStr ''hi'')] ''style''"
    by (simp add: hasOwn_def)
  have no_callback: "getEditWrapperProps ?bt = None"
    by simp
  note inst = missing_inputs_default
    [where kebab = kebabCase and attrs = ?attrs and window = "JObj []" and h = ?h and props = 0
       and blockType = ?bt and akvs = "[(''content'', JStr ''hi'')]" and settings = ?bt]
  from inst styled no_style
  have "addSaveProps kebabCase (JObj []) ?h 0 ?bt ?attrs
          = Inr (?h\<lparr>cells := (cells ?h)(0 :=
                    setProp (cells ?h 0) ''style'' (JObj (spread2 (JObj []) (styleOf ?h 0))))\<rparr>, 0)"
    by blast
  moreover have "setProp (cells ?h 0) ''style'' (JObj (spread2 (JObj []) (styleOf ?h 0)))
                   = [(''style'', JObj [])]"
    by code_simp
  ultimately have saved: "\<exists>h'. addSaveProps kebabCase (JObj []) ?h 0 ?bt ?attrs = Inr (h', 0)
                            \<and> cells h' 0 = [(''style'', JObj [])]"
    by simp
  from inst styled no_callback attrs
  have "\<exists>h'. callEditWrapper (addEditProps kebabCase ?bt) (JObj []) ?h ?attrs = Inr (h', next_ref ?h)"
    by blast
  then have wrapped: "\<exists>h'. callEditWrapper (addEditProps kebabCase ?bt) (JObj []) ?h ?attrs = Inr (h', 1)"
    by simp
  from attrs styled no_style saved wrapped show ?thesis
    by blast
qed

lemma map_of_second_round:
  assumes "distinct (map fst computed)"
  shows "map_of (spread2 (JObj computed) (JObj (spread2 (JObj computed) existing)))
           = map_of (spread2 (JObj computed) existing)"
proof -
  have "map_of (spread2 (JObj computed) (JObj (spread2 (JObj computed) existing)))
          = map_of computed ++ (map_of computed ++ map_of (rev (entries existing)))"
    by (simp add: map_of_spread2 map_of_rev_distinct assms distinct_spread2)
  also have "\<dots> = map_of computed ++ map_of (rev (entries existing))"
    by (rule ext) (simp add: map_add_def split: option.splits)
  finally show ?thesis
    by (simp add: map_of_spread2 map_of_rev_distinct assms)
qed

lemma addSaveProps_twice:
  assumes "hasStyleSupport settings" and "hasStyleSupport settings'" and "\<not> isNullish attrs"
  shows "\<exists>h2 h3 merged.
           addSaveProps kebab window h1 props settings attrs = Inr (h2, props)
           \<and> addSaveProps kebab window h2 props settings' attrs = Inr (h3, props)
           \<and> otherProps (cells h3 props) = otherProps (cells h1 props)
           \<and> styleOf h3 props = JObj merged
           \<and> map_of merged
               = map_of (spread2 (JObj (computedStyle kebab window attrs)) (styleOf h1 props))"
  using assms map_of_second_round [OF computedStyle_distinct, of kebab window attrs "styleOf h1 props"]
  by (simp add: addSaveProps_supported styleOf_def getProp_setProp otherProps_setProp)

text \<open>
  Claim C3. For a block type with style support, the callback that \<^verbatim>\<open>addEditProps\<close>
  installs first obtains a prop bag (from the callback that was installed before, called
  with the attributes, or a new empty object when there was none) and then returns
  \<^verbatim>\<open>addSaveProps\<close> of that bag, the block type and the attributes; the declared features
  and attributes of the block type are unchanged. After a second \<^verbatim>\<open>addEditProps\<close> the
  callback runs the first wrapper and passes its result through \<^verbatim>\<open>addSaveProps\<close> again.
  When the original callback returns a bag, the doubly wrapped callback returns that same
  bag: its properties other than \<^verbatim>\<open>style\<close> are those the original callback produced, and
  its style is, as a mapping, the style after the first injection (the computed values
  overlaid by the original style), so the second round replaces nothing.
\<close>

theorem addEditProps_wraps:
  assumes "hasStyleSupport settings"
  shows "callEditWrapper (addEditProps kebab settings) window h attrs
           = (case (case getEditWrapperProps settings of
                      None \<Rightarrow> Inr (newObject h)
                    | Some prior \<Rightarrow> prior window (fst (newObject h)) attrs) of
                Inl e \<Rightarrow> Inl e
              | Inr (h1, props) \<Rightarrow> addSaveProps kebab window h1 props settings attrs)
         \<and> supports (addEditProps kebab settings) = supports settings
         \<and> attributes (addEditProps kebab settings) = attributes settings
         \<and> callEditWrapper (addEditProps kebab (addEditProps kebab settings)) window h attrs
           = (case callEditWrapper (addEditProps kebab settings) window (fst (newObject h)) attrs of
                Inl e \<Rightarrow> Inl e
              | Inr (h2, props) \<Rightarrow>
                  addSaveProps kebab window h2 props (addEditProps kebab settings) attrs)
         \<and> (\<forall>prior h1 props.
               getEditWrapperProps settings = Some prior
               \<and> prior window (fst (newObject (fst (newObject h)))) attrs = Inr (h1, props)
               \<and> \<not> isNullish attrs \<longrightarrow>
               (\<exists>h3 merged.
                  callEditWrapper (addEditProps kebab (addEditProps kebab settings)) window h attrs
                    = Inr (h3, props)
                  \<and> otherProps (cells h3 props) = otherProps (cells h1 props)
                  \<and> styleOf h3 props = JObj merged
                  \<and> map_of merged
                      = map_of (spread2 (JObj (computedStyle kebab window attrs)) (styleOf h1 props))))"
proof -
  have once: "callEditWrapper (addEditProps kebab settings) window h0 attrs
           = (case (case getEditWrapperProps settings of
                      None \<Rightarrow> Inr (newObject h0)
                    | Some prior \<Rightarrow> prior window (fst (newObject h0)) attrs) of
                Inl e \<Rightarrow> Inl e
              | Inr (h1, props) \<Rightarrow> addSaveProps kebab window h1 props settings attrs)" for h0
    using assms by (rule callEditWrapper_addEditProps)
  have fields: "supports (addEditProps kebab settings) = supports settings"
    "attributes (addEditProps kebab settings) = attributes settings"
    by (simp_all add: addEditProps_def Let_def)
  have again: "hasStyleSupport (addEditProps kebab settings)"
    using assms by simp
  have installed: "\<exists>first. getEditWrapperProps (addEditProps kebab settings) = Some first"
    using assms by (simp add: addEditProps_def Let_def)
  have twice: "callEditWrapper (addEditProps kebab (addEditProps kebab settings)) window h attrs
           = (case callEditWrapper (addEditProps kebab settings) window (fst (newObject h)) attrs of
                Inl e \<Rightarrow> Inl e
              | Inr (h2, props) \<Rightarrow>
                  addSaveProps kebab window h2 props (addEditProps kebab settings) attrs)"
  proof -
    from installed obtain first where
      first: "getEditWrapperProps (addEditProps kebab settings) = Some first" ..
    have inner: "callEditWrapper (addEditProps kebab settings) window (fst (newObject h)) attrs
                   = first window (fst (newObject h)) attrs"
      by (simp add: callEditWrapper_def first)
    show ?thesis
      unfolding callEditWrapper_addEditProps [OF again] inner first by simp
  qed
  have chain: "\<exists>h3 merged.
                  callEditWrapper (addEditProps kebab (addEditProps kebab settings)) window h attrs
                    = Inr (h3, props)
                  \<and> otherProps (cells h3 props) = otherProps (cells h1 props)
                  \<and> styleOf h3 props = JObj merged
                  \<and> map_of merged
                      = map_of (spread2 (JObj (computedStyle kebab window attrs)) (styleOf h1 props))"
    if "getEditWrapperProps settings = Some prior
        \<and> prior window (fst (newObject (fst (newObject h)))) attrs = Inr (h1, props)
        \<and> \<not> isNullish attrs" for prior h1 props
  proof -
    from that have prior: "getEditWrapperProps settings = Some prior"
      and returned: "prior window (fst (newObject (fst (newObject h)))) attrs = Inr (h1, props)"
      and attrs: "\<not> isNullish attrs"
      by blast+
    from addSaveProps_twice [OF assms again attrs, of kebab window h1 props]
    obtain h2 h3 merged where
      first: "addSaveProps kebab window h1 props settings attrs = Inr (h2, props)"
      and second: "addSaveProps kebab window h2 props (addEditProps kebab settings) attrs = Inr (h3, props)"
      and rest: "otherProps (cells h3 props) = otherProps (cells h1 props)"
        "styleOf h3 props = JObj merged"
        "map_of merged = map_of (spread2 (JObj (computedStyle kebab window attrs)) (styleOf h1 props))"
      by blast
    have "callEditWrapper (addEditProps kebab settings) window (fst (newObject h)) attrs = Inr (h2, props)"
      by (simp add: once prior returned first)
    then have "callEditWrapper (addEditProps kebab (addEditProps kebab settings)) window h attrs
                 = Inr (h3, props)"
      by (simp add: twice second)
    with rest show ?thesis by blast
  qed
  show ?thesis
    by (intro conjI allI impI) (rule once, rule fields(1), rule fields(2), rule twice, erule chain)
qed


theorem addEditProps_wraps_witness:
  "hasStyleSupport
     \<lparr>supports = [LINE_HEIGHT_SUPPRT_KEY], attributes = [],
      getEditWrapperProps = Some (\<lambda>window h attrs.
        Inr (h\<lparr>cells := (cells h)(next_ref h := [(''className'', JStr ''wp-block'')]),
               next_ref := Suc (next_ref h)\<rparr>, next_ref h))\<rparr>
   \<and> \<not> isNullish (JObj [(''style'', JObj [(''typography'', JObj [(''lineHeight'', JStr ''1.5'')])])])
   \<and> (\<exists>h3 merged.
         callEditWrapper
           (addEditProps kebabCase (addEditProps kebabCase
              \<lparr>supports = [LINE_HEIGHT_SUPPRT_KEY], attributes = [],
               getEditWrapperProps = Some (\<lambda>window h attrs.
                 Inr (h\<lparr>cells := (cells h)(next_ref h := [(''className'', JStr ''wp-block'')]),
                        next_ref := Suc (next_ref h)\<rparr>, next_ref h))\<rparr>))
           (JObj []) \<lparr>cells = (\<lambda>r. []), next_ref = 0\<rparr>
           (JObj [(''style'', JObj [(''typography'', JObj [(''lineHeight'', JStr ''1.5'')])])])
          = Inr (h3, 2)
         \<and> otherProps (cells h3 2) = [(''className'', JStr ''wp-block'')]
         \<and> styleOf h3 2 = JObj merged
         \<and> map_of merged = map_of [(''lineHeight'', JStr ''1.5'')])"
proof -
  let ?prior = "\<lambda>(window :: jsval) (h :: heap) (attrs :: jsval).
        (Inr (h\<lparr>cells := (cells h)(next_ref h := [(''className'', JStr ''wp-block'')]),
               next_ref := Suc (next_ref h)\<rparr>, next_ref h) :: error + heap \<times> ref)"
  let ?settings = "\<lparr>supports = [LINE_HEIGHT_SUPPRT_KEY], attributes = [],
                    getEditWrapperProps = Some ?prior\<rparr>"
  let ?attrs = "JObj [(''style'', JObj [(''typography'', JObj [(''lineHeight'', JStr ''1.5'')])])]"
  let ?h = "\<lparr>cells = (\<lambda>r. []), next_ref = 0\<rparr>"
  have styled: "hasStyleSupport ?settings"
    by (simp add: hasStyleSupport_def hasBlockSupport_def styleSupportKeys_def)
  have attrs: "\<not> isNullish ?attrs"
    by (simp add: isNullish_def)
  have prior: "getEditWrapperProps ?settings = Some ?prior"
    by simp
  obtain h1 where returned: "?prior (JObj []) (fst (newObject (fst (newObject ?h)))) ?attrs = Inr (h1, 2)"
    and bag: "cells h1 2 = [(''className'', JStr ''wp-block'')]"
    by (simp add: newObject_def)
  have computed: "spread2 (JObj (computedStyle kebabCase (JObj []) ?attrs)) JUndefined
                    = [(''lineHeight'', JStr ''1.5'')]"
    by code_simp
  have old: "styleOf h1 2 = JUndefined"
    by (simp add: styleOf_def bag getProp_def)
  from addEditProps_wraps [OF styled, of kebabCase "JObj []" ?h ?attrs,
         THEN conjunct2, THEN conjunct2, THEN conjunct2, THEN conjunct2, rule_format,
         of ?prior h1 2]
       prior returned attrs
  obtain h3 merged where
    "callEditWrapper (addEditProps kebabCase (addEditProps kebabCase ?settings)) (JObj []) ?h ?attrs
       = Inr (h3, 2)"
    and "otherProps (cells h3 2) = otherProps (cells h1 2)"
    and "styleOf h3 2 = JObj merged"
    and "map_of merged = map_of (spread2 (JObj (computedStyle kebabCase (JObj []) ?attrs)) (styleOf h1 2))"
    by blast
  then have "callEditWrapper (addEditProps kebabCase (addEditProps kebabCase ?settings)) (JObj []) ?h ?attrs
       = Inr (h3, 2)
     \<and> otherProps (cells h3 2) = [(''className'', JStr ''wp-block'')]
     \<and> styleOf h3 2 = JObj merged
     \<and> map_of merged = map_of [(''lineHeight'', JStr ''1.5'')]"
    by (simp add: old computed bag otherProps_def)
  with styled attrs show ?thesis
    by blast
qed

end
